theory Spec2Isabelle
  imports Complex_Main "HOL-Library.AList" "HOL-Library.Log_Nat"
begin

section \<open>Python values used by the booking and pricing core\<close>

text \<open>
  The exceptions the modelled code can raise. A function that can raise returns
  \<open>error + 'a\<close>, with \<open>Inl\<close> carrying the exception.
\<close>

datatype error = ValueError | AttributeError | TypeError | KeyError | OverflowError

text \<open>
  The values found in a booking item, in a JSON request body and in the session:
  \<open>None\<close>, strings and integers. A dictionary is an association list in insertion
  order; \<open>d.get(k)\<close> is \<open>None\<close> for a missing key.
\<close>

datatype pyval = PNone | PStr string | PInt int

type_synonym pydict = "(string \<times> pyval) list"

definition get_default :: "pydict \<Rightarrow> string \<Rightarrow> pyval \<Rightarrow> pyval" where
  "get_default d k dflt = (case map_of d k of None \<Rightarrow> dflt | Some v \<Rightarrow> v)"

definition getv :: "pydict \<Rightarrow> string \<Rightarrow> pyval" where
  "getv d k = get_default d k PNone"

subsection \<open>Strings\<close>

text \<open>
  Strings are ASCII character lists. \<open>int(s)\<close> on a string: surrounding white space
  (the characters 9 to 13 and the space) is dropped, one sign is allowed, then decimal
  digits, where a single underscore may stand between two digits. Anything else raises
  \<open>ValueError\<close>, and so does a string with more than 4300 digits, the interpreter's
  default limit for this conversion.
\<close>

definition char_in :: "char \<Rightarrow> char \<Rightarrow> char \<Rightarrow> bool" where
  "char_in lo hi c = ((of_char lo :: nat) \<le> of_char c \<and> (of_char c :: nat) \<le> of_char hi)"

definition is_space :: "char \<Rightarrow> bool" where
  "is_space c = (let n = (of_char c :: nat) in (9 \<le> n \<and> n \<le> 13) \<or> n = 32)"

definition is_digit :: "char \<Rightarrow> bool" where
  "is_digit c = char_in (CHR ''0'') (CHR ''9'') c"

definition digit_val :: "char \<Rightarrow> nat" where
  "digit_val c = (if is_digit c then (of_char c :: nat) - 48 else 0)"

definition strip :: "string \<Rightarrow> string" where
  "strip s = rev (dropWhile is_space (rev (dropWhile is_space s)))"

fun py_digits :: "nat \<Rightarrow> string \<Rightarrow> nat option" where
  "py_digits acc [] = Some acc"
| "py_digits acc [c] = (if is_digit c then Some (10 * acc + digit_val c) else None)"
| "py_digits acc (c # d # ds) =
     (if is_digit c then py_digits (10 * acc + digit_val c) (d # ds)
      else if c = CHR ''_'' \<and> is_digit d then py_digits (10 * acc + digit_val d) ds
      else None)"

definition py_nat :: "string \<Rightarrow> nat option" where
  "py_nat s = (case s of [] \<Rightarrow> None
               | c # cs \<Rightarrow> if is_digit c then py_digits (digit_val c) cs else None)"

definition MAX_STR_DIGITS :: nat where
  "MAX_STR_DIGITS = 4300"

definition py_int :: "string \<Rightarrow> error + int" where
  "py_int s =
     (if length (filter is_digit s) > MAX_STR_DIGITS then Inl ValueError
      else case strip s of
        [] \<Rightarrow> Inl ValueError
      | c # cs \<Rightarrow>
          (case (if c = CHR ''-'' \<or> c = CHR ''+'' then py_nat cs else py_nat (c # cs)) of
             None \<Rightarrow> Inl ValueError
           | Some n \<Rightarrow> Inr (if c = CHR ''-'' then - int n else int n)))"

text \<open>\<open>int(v)\<close> on a value: an integer is itself, a string is read, \<open>None\<close> is a
  \<open>TypeError\<close>.\<close>

fun py_int_val :: "pyval \<Rightarrow> error + int" where
  "py_int_val (PInt n) = Inr n"
| "py_int_val (PStr s) = py_int s"
| "py_int_val PNone = Inl TypeError"

text \<open>\<open>s.split(':')[0]\<close>: the text before the first colon (all of \<open>s\<close> when it has none).\<close>

definition split_colon_head :: "string \<Rightarrow> string" where
  "split_colon_head s = takeWhile (\<lambda>c. c \<noteq> CHR '':'') s"

text \<open>\<open>int(t.split(':')[0])\<close>, the hour of a time such as \<open>''09:00''\<close>. A value that is
  not a string has no \<open>split\<close>: \<open>AttributeError\<close>.\<close>

definition hour_of :: "string \<Rightarrow> error + int" where
  "hour_of t = py_int (split_colon_head t)"

fun hour_of_val :: "pyval \<Rightarrow> error + int" where
  "hour_of_val (PStr s) = hour_of s"
| "hour_of_val v = Inl AttributeError"

text \<open>\<open>s.lower()\<close> and \<open>sub in s\<close>.\<close>

definition lower_char :: "char \<Rightarrow> char" where
  "lower_char c = (if char_in (CHR ''A'') (CHR ''Z'') c then char_of ((of_char c :: nat) + 32) else c)"

definition lower :: "string \<Rightarrow> string" where
  "lower s = map lower_char s"

fun contains :: "string \<Rightarrow> string \<Rightarrow> bool" where
  "contains sub [] = (sub = [])"
| "contains sub (c # cs) = (take (length sub) (c # cs) = sub \<or> contains sub cs)"

subsection \<open>Dates\<close>

text \<open>
  \<open>datetime.strptime(date, '%Y-%m-%d')\<close>. The format is compiled to the pattern
  \<^verbatim>\<open>(\d\d\d\d)-(1[0-2]|0[1-9]|[1-9])-(3[01]|[12]\d|0[1-9]|[1-9]| [1-9])\<close>,
  whose alternatives are tried in order; text left over after the day is an error, and so
  is a year 0 or a day the month does not have. In this pattern an alternative that
  matches is never given up for a later one: after a two-character month the next
  character must be the dash, which no shorter month leaves there, and the day is last.
\<close>

record date_obj =
  year :: int
  month :: int
  day :: int

definition orelse :: "'a option \<Rightarrow> 'a option \<Rightarrow> 'a option" where
  "orelse a b = (case a of None \<Rightarrow> b | Some x \<Rightarrow> Some x)"

fun two_chars :: "(char \<Rightarrow> bool) \<Rightarrow> (char \<Rightarrow> bool) \<Rightarrow> string \<Rightarrow> (nat \<times> string) option" where
  "two_chars P Q (c1 # c2 # r) =
     (if P c1 \<and> Q c2 then Some (10 * digit_val c1 + digit_val c2, r) else None)"
| "two_chars P Q r = None"

fun one_char :: "(char \<Rightarrow> bool) \<Rightarrow> string \<Rightarrow> (nat \<times> string) option" where
  "one_char P (c # r) = (if P c then Some (digit_val c, r) else None)"
| "one_char P [] = None"

fun expect_dash :: "string \<Rightarrow> string option" where
  "expect_dash (c # r) = (if c = CHR ''-'' then Some r else None)"
| "expect_dash [] = None"

fun match_Y :: "string \<Rightarrow> (nat \<times> string) option" where
  "match_Y (a # b # c # d # r) =
     (if is_digit a \<and> is_digit b \<and> is_digit c \<and> is_digit d
      then Some (1000 * digit_val a + 100 * digit_val b + 10 * digit_val c + digit_val d, r)
      else None)"
| "match_Y r = None"

definition match_m :: "string \<Rightarrow> (nat \<times> string) option" where
  "match_m s =
     orelse (two_chars (\<lambda>c. c = CHR ''1'') (char_in (CHR ''0'') (CHR ''2'')) s)
    (orelse (two_chars (\<lambda>c. c = CHR ''0'') (char_in (CHR ''1'') (CHR ''9'')) s)
            (one_char (char_in (CHR ''1'') (CHR ''9'')) s))"

definition match_d :: "string \<Rightarrow> (nat \<times> string) option" where
  "match_d s =
     orelse (two_chars (\<lambda>c. c = CHR ''3'') (char_in (CHR ''0'') (CHR ''1'')) s)
    (orelse (two_chars (char_in (CHR ''1'') (CHR ''2'')) is_digit s)
    (orelse (two_chars (\<lambda>c. c = CHR ''0'') (char_in (CHR ''1'') (CHR ''9'')) s)
    (orelse (one_char (char_in (CHR ''1'') (CHR ''9'')) s)
            (two_chars (\<lambda>c. c = CHR '' '') (char_in (CHR ''1'') (CHR ''9'')) s))))"

definition is_leap :: "int \<Rightarrow> bool" where
  "is_leap y = (y mod 4 = 0 \<and> (y mod 100 \<noteq> 0 \<or> y mod 400 = 0))"

definition DAYS_IN_MONTH :: "int list" where
  "DAYS_IN_MONTH = [-1, 31, 28, 31, 30, 31, 30, 31, 31, 30, 31, 30, 31]"

definition DAYS_BEFORE_MONTH :: "int list" where
  "DAYS_BEFORE_MONTH = [-1, 0, 31, 59, 90, 120, 151, 181, 212, 243, 273, 304, 334]"

definition days_in_month :: "int \<Rightarrow> int \<Rightarrow> int" where
  "days_in_month y m = (if m = 2 \<and> is_leap y then 29 else DAYS_IN_MONTH ! nat m)"

definition days_before_year :: "int \<Rightarrow> int" where
  "days_before_year y = (let y1 = y - 1 in y1 * 365 + y1 div 4 - y1 div 100 + y1 div 400)"

definition days_before_month :: "int \<Rightarrow> int \<Rightarrow> int" where
  "days_before_month y m = DAYS_BEFORE_MONTH ! nat m + (if m > 2 \<and> is_leap y then 1 else 0)"

definition match_date :: "string \<Rightarrow> (nat \<times> nat \<times> nat) option" where
  "match_date s =
     (case match_Y s of None \<Rightarrow> None | Some (y, r1) \<Rightarrow>
     (case expect_dash r1 of None \<Rightarrow> None | Some r2 \<Rightarrow>
     (case match_m r2 of None \<Rightarrow> None | Some (m, r3) \<Rightarrow>
     (case expect_dash r3 of None \<Rightarrow> None | Some r4 \<Rightarrow>
     (case match_d r4 of None \<Rightarrow> None | Some (d, r5) \<Rightarrow>
        if r5 = [] then Some (y, m, d) else None)))))"

definition strptime :: "string \<Rightarrow> error + date_obj" where
  "strptime s =
     (case match_date s of
        None \<Rightarrow> Inl ValueError
      | Some (y, m, d) \<Rightarrow>
          if y < 1 \<or> days_in_month (int y) (int m) < int d then Inl ValueError
          else Inr \<lparr>year = int y, month = int m, day = int d\<rparr>)"

definition toordinal :: "date_obj \<Rightarrow> int" where
  "toordinal dt = days_before_year (year dt) + days_before_month (year dt) (month dt) + day dt"

text \<open>Monday is 0 and Sunday is 6.\<close>

definition weekday :: "date_obj \<Rightarrow> int" where
  "weekday dt = (toordinal dt + 6) mod 7"

text \<open>The ordinal of 9999-12-31, the last date there is.\<close>

definition MAXORDINAL :: int where
  "MAXORDINAL = 3652059"

subsection \<open>Floating-point numbers\<close>

text \<open>
  A Python \<open>float\<close> is an IEEE 754 binary64 number. A finite float is modelled by its
  rational value, and an operation rounds its exact result to nearest, ties to the even
  significand.

  \<open>rhe q\<close> is the integer nearest to \<open>q\<close>, the even one of two equally near.
  \<open>dexp x\<close> is the binary exponent of \<open>x \<noteq> 0\<close>: \<open>2 ^ dexp x \<le> \<bar>x\<bar> < 2 ^ (dexp x + 1)\<close>.
  \<open>fl x\<close> rounds to 53 significant bits. It is the float nearest to \<open>x\<close> as long as
  the result is a normal number, \<open>2 ^ -1022 \<le> \<bar>x\<bar>\<close> and \<open>\<bar>fl x\<bar> < 2 ^ 1024\<close>: a literal
  such as \<open>0.3\<close> is \<open>fl (3 / 10)\<close>. The scheduling engine and the date and demand
  multipliers only add and subtract such literals, all of their values lie between 0.1
  and 1.35, and \<open>dadd\<close>, \<open>dsub\<close> and \<open>dmul\<close> are the operations on them.
\<close>

type_synonym double = rat

definition rhe :: "rat \<Rightarrow> int" where
  "rhe q = (let f = \<lfloor>q\<rfloor>; r = q - of_int f in
            if r < 1 / 2 then f else if 1 / 2 < r then f + 1
            else if even f then f else f + 1)"

definition dexp :: "rat \<Rightarrow> int" where
  "dexp x = (let (p, q) = quotient_of \<bar>x\<bar>; e = bitlen p - bitlen q in
             if 2 powi e \<le> \<bar>x\<bar> then e else e - 1)"

definition fl :: "rat \<Rightarrow> double" where
  "fl x = (if x = 0 then 0
           else let u = 2 powi (dexp x - 52) in of_int (rhe (x / u)) * u)"

definition dadd :: "double \<Rightarrow> double \<Rightarrow> double" where
  "dadd a b = fl (a + b)"

definition dsub :: "double \<Rightarrow> double \<Rightarrow> double" where
  "dsub a b = fl (a - b)"

definition dmul :: "double \<Rightarrow> double \<Rightarrow> double" where
  "dmul a b = fl (a * b)"

text \<open>
  The duration and the rating of a quote are numbers of any size, so the pricing engine
  needs all of binary64: the finite floats, the two infinities and NaN. \<open>fl64 x\<close> is
  the float nearest to the rational \<open>x\<close>: below \<open>2 ^ -1022\<close> the floats are the
  multiples of \<open>2 ^ -1074\<close> (gradual underflow), and a result that rounds to
  \<open>2 ^ 1024\<close> or more is an infinity (overflow). The sign of a zero is not
  represented: no result of the modelled code depends on it.
\<close>

datatype float64 = Fin double | PInf | NInf | NaN

definition min_normal :: rat where
  "min_normal = 2 powi (- 1022)"

definition sub_ulp :: rat where
  "sub_ulp = 2 powi (- 1074)"

text \<open>\<open>rnd x\<close> rounds with gradual underflow and without the test for overflow.\<close>

definition rnd :: "rat \<Rightarrow> rat" where
  "rnd x = (if \<bar>x\<bar> < min_normal then of_int (rhe (x / sub_ulp)) * sub_ulp else fl x)"

definition fl64 :: "rat \<Rightarrow> float64" where
  "fl64 x =
     (if 2 ^ 1024 \<le> \<bar>rnd x\<bar> then (if 0 < x then PInf else NInf) else Fin (rnd x))"

text \<open>\<open>x <= y\<close> and \<open>x < y\<close> on floats: every comparison with NaN is false.\<close>

fun fle :: "float64 \<Rightarrow> float64 \<Rightarrow> bool" where
  "fle NaN y = False"
| "fle x NaN = False"
| "fle NInf y = True"
| "fle x PInf = True"
| "fle (Fin a) (Fin b) = (a \<le> b)"
| "fle x y = False"

definition flt :: "float64 \<Rightarrow> float64 \<Rightarrow> bool" where
  "flt x y = (fle x y \<and> \<not> fle y x)"

text \<open>\<open>max(a, b)\<close> is \<open>b\<close> if \<open>b > a\<close> and \<open>a\<close> otherwise, so that
  \<open>max(1.0, nan)\<close> is \<open>1.0\<close>.\<close>

definition py_max :: "float64 \<Rightarrow> float64 \<Rightarrow> float64" where
  "py_max a b = (if flt a b then b else a)"

text \<open>\<open>x * y\<close> on floats. It never raises: a product too large is an infinity, and
  zero times an infinity is NaN.\<close>

fun fmul :: "float64 \<Rightarrow> float64 \<Rightarrow> float64" where
  "fmul (Fin a) (Fin b) = fl64 (a * b)"
| "fmul NaN y = NaN"
| "fmul x NaN = NaN"
| "fmul (Fin a) y = (if a = 0 then NaN else if (0 < a) = (y = PInf) then PInf else NInf)"
| "fmul x (Fin b) = (if b = 0 then NaN else if (0 < b) = (x = PInf) then PInf else NInf)"
| "fmul x y = (if x = y then PInf else NInf)"

text \<open>\<open>x / c\<close> for a float \<open>x\<close> and a literal \<open>c\<close> that is positive and finite: the
  code divides by \<open>2.0\<close> and by \<open>5.0\<close> only.\<close>

fun fdiv :: "float64 \<Rightarrow> double \<Rightarrow> float64" where
  "fdiv (Fin a) c = fl64 (a / c)"
| "fdiv x c = x"

text \<open>\<open>round(x, 2)\<close>: the exact value of a finite \<open>x\<close> is rounded to two decimal
  places, ties to even, and the decimal result is read back as a float; an infinity and
  NaN are returned as they are.\<close>

fun fround2 :: "float64 \<Rightarrow> float64" where
  "fround2 (Fin a) = fl64 (of_int (rhe (a * 100)) / 100)"
| "fround2 x = x"

text \<open>
  A number passed for the duration or the rating is an \<open>int\<close> or a \<open>float\<close>. In
  \<open>PyFloat (Fin r)\<close> the rational \<open>r\<close> stands for the float nearest to it, which is
  \<open>r\<close> itself when \<open>r\<close> is the value of a float. Dividing a number by a float
  literal first turns it into a float: for an \<open>int\<close> that rounds to \<open>2 ^ 1024\<close> or
  more this raises \<open>OverflowError\<close> (int too large to convert to float).
\<close>

datatype pynum = PyInt int | PyFloat float64

fun to_float :: "pynum \<Rightarrow> error + float64" where
  "to_float (PyInt n) =
     (case fl64 (of_int n) of Fin y \<Rightarrow> Inr (Fin y) | _ \<Rightarrow> Inl OverflowError)"
| "to_float (PyFloat (Fin r)) = Inr (fl64 r)"
| "to_float (PyFloat x) = Inr x"

section \<open>Pricing engine\<close>

definition base_prices :: "(string \<times> int) list" where
  "base_prices =
     [(''wedding'', 1500), (''portrait'', 300), (''event'', 800),
      (''commercial'', 1200), (''family'', 400)]"

definition location_multipliers :: "(string \<times> double) list" where
  "location_multipliers =
     [(''mumbai'', fl (15 / 10)), (''delhi'', fl (14 / 10)), (''bangalore'', fl (13 / 10)),
      (''hyderabad'', fl (12 / 10)), (''chennai'', fl (12 / 10)), (''pune'', fl (11 / 10))]"

text \<open>The loop over the cities, left at the first city found in the lower-cased location.\<close>

fun location_loop :: "(string \<times> double) list \<Rightarrow> string \<Rightarrow> double" where
  "location_loop [] location = fl 1"
| "location_loop ((city, multiplier) # rest) location =
     (if contains city (lower location) then multiplier else location_loop rest location)"

text \<open>
  \<open>PricingEngine.calculate_demand_multiplier(date, location)\<close>. The dates thirty days
  before and after are computed first (and not used); within thirty days of the first or
  the last date there is, that arithmetic raises \<open>OverflowError\<close>. Every exception is
  caught and answered with \<open>1.0\<close>.
\<close>

definition calculate_demand_multiplier :: "string \<Rightarrow> string \<Rightarrow> double" where
  "calculate_demand_multiplier date location =
     (case strptime date of
        Inl e \<Rightarrow> fl 1
      | Inr dt \<Rightarrow>
          if \<not> (0 < toordinal dt - 30) \<or> \<not> (toordinal dt + 30 \<le> MAXORDINAL) then fl 1
          else if weekday dt \<ge> 5 then fl (12 / 10)
          else if month dt \<in> set [11, 12, 1, 2, 5, 6] then fl (115 / 100)
          else fl 1)"

text \<open>The returned dictionary: \<open>base_price\<close>, \<open>final_price\<close> and the \<open>factors\<close>
  dictionary. \<open>except_quote\<close> is the dictionary that the \<open>except\<close> branch returns.\<close>

record quote =
  base_price :: rat
  final_price :: float64
  factors :: "(string \<times> float64) list"

definition except_quote :: quote where
  "except_quote = \<lparr>base_price = 500, final_price = Fin 500, factors = []\<rparr>"

text \<open>
  \<open>PricingEngine.calculate_dynamic_price(event_type, location, date, duration,
  photographer_rating)\<close>. The event type, the location and the date are strings, the
  duration and the rating are numbers. Three statements of the \<open>try\<close> block can
  raise: the parsing of the date, \<open>duration / 2.0\<close> and \<open>photographer_rating / 5.0\<close>
  (for an \<open>int\<close> too large for a float). Every exception is caught and answered with
  \<open>except_quote\<close>.
\<close>

definition calculate_dynamic_price ::
  "string \<Rightarrow> string \<Rightarrow> string \<Rightarrow> pynum \<Rightarrow> pynum \<Rightarrow> quote" where
  "calculate_dynamic_price event_type location date duration photographer_rating =
     (let base = (case map_of base_prices (lower event_type) of None \<Rightarrow> 500 | Some p \<Rightarrow> p);
          location_multiplier = location_loop location_multipliers location
      in case strptime date of
           Inl e \<Rightarrow> except_quote
         | Inr dt \<Rightarrow>
             (let dm0 = fl 1;
                  dm1 = (if weekday dt \<ge> 5 then dadd dm0 (fl (2 / 10)) else dm0);
                  date_multiplier =
                    (if month dt \<in> set [12, 5, 6] then dadd dm1 (fl (15 / 100)) else dm1)
              in case to_float duration of
                   Inl e \<Rightarrow> except_quote
                 | Inr d \<Rightarrow>
                     (case to_float photographer_rating of
                        Inl e \<Rightarrow> except_quote
                      | Inr r \<Rightarrow>
                          (let duration_multiplier = py_max (Fin (fl 1)) (fdiv d (fl 2));
                               rating_multiplier = py_max (Fin (fl (8 / 10))) (fdiv r (fl 5));
                               demand_multiplier = calculate_demand_multiplier date location;
                               final =
                                 fmul (fmul (fmul (fmul (fmul (fl64 (of_int base))
                                   (Fin location_multiplier)) (Fin date_multiplier))
                                   duration_multiplier) rating_multiplier) (Fin demand_multiplier)
                           in \<lparr>base_price = of_int base,
                               final_price = fround2 final,
                               factors =
                                 [(''location_multiplier'', Fin location_multiplier),
                                  (''date_multiplier'', Fin date_multiplier),
                                  (''duration_multiplier'', duration_multiplier),
                                  (''rating_multiplier'', rating_multiplier),
                                  (''demand_multiplier'', Fin demand_multiplier)]\<rparr>))))"

section \<open>Scheduling engine\<close>

definition time_slots :: "string list" where
  "time_slots =
     [''09:00'', ''10:00'', ''11:00'', ''12:00'', ''13:00'', ''14:00'',
      ''15:00'', ''16:00'', ''17:00'', ''18:00'', ''19:00'', ''20:00'']"

text \<open>
  \<open>SchedulingEngine.is_slot_available(start_time, duration, booked_slots)\<close>. The loop
  over the booked slots returns \<open>False\<close> at the first overlap and does not look at the
  slots after it.
\<close>

fun booked_loop :: "int \<Rightarrow> int \<Rightarrow> (pyval \<times> int) list \<Rightarrow> error + bool" where
  "booked_loop start_hour end_hour [] = Inr True"
| "booked_loop start_hour end_hour ((booked_start, booked_duration) # rest) =
     (case hour_of_val booked_start of
        Inl e \<Rightarrow> Inl e
      | Inr booked_start_hour \<Rightarrow>
          (let booked_end_hour = booked_start_hour + booked_duration in
           if \<not> (end_hour \<le> booked_start_hour \<or> start_hour \<ge> booked_end_hour)
           then Inr False
           else booked_loop start_hour end_hour rest))"

definition is_slot_available ::
  "string \<Rightarrow> int \<Rightarrow> (pyval \<times> int) list \<Rightarrow> error + bool" where
  "is_slot_available start_time duration booked_slots =
     (case hour_of start_time of
        Inl e \<Rightarrow> Inl e
      | Inr start_hour \<Rightarrow> booked_loop start_hour (start_hour + duration) booked_slots)"

text \<open>\<open>SchedulingEngine.calculate_slot_score(time_slot, date, duration)\<close>.\<close>

definition calculate_slot_score :: "string \<Rightarrow> string \<Rightarrow> int \<Rightarrow> error + double" where
  "calculate_slot_score time_slot date duration =
     (case hour_of time_slot of
        Inl e \<Rightarrow> Inl e
      | Inr hour \<Rightarrow>
          (let s0 = fl (5 / 10);
               s1 = (if hour \<in> set [16, 17, 18] then dadd s0 (fl (3 / 10)) else s0);
               s2 = (if hour \<in> set [10, 11, 12] then dadd s1 (fl (2 / 10)) else s1);
               s3 = (if hour < 9 \<or> hour > 19 then dsub s2 (fl (2 / 10)) else s2)
           in case strptime date of
                Inl e \<Rightarrow> Inl e
              | Inr dt \<Rightarrow>
                  (let s4 = (if weekday dt \<ge> 5 then dadd s3 (fl (1 / 10)) else s3)
                   in Inr (min (fl 1) (max (fl 0) s4)))))"

text \<open>An entry of the returned list.\<close>

record slot =
  time :: string
  score :: double
  recommended :: bool

text \<open>A booking item of the bookings table is a dictionary. The query on the
  photographer index returns the items of that photographer on that date.\<close>

definition query_photographer_index :: "pydict list \<Rightarrow> string \<Rightarrow> string \<Rightarrow> pydict list" where
  "query_photographer_index table photographer_id date =
     filter (\<lambda>b. getv b ''photographer_id'' = PStr photographer_id
                \<and> getv b ''event_date'' = PStr date) table"

text \<open>The loop that collects \<open>booked_slots\<close> from the items in status confirmed or
  pending.\<close>

fun collect_booked :: "pydict list \<Rightarrow> error + (pyval \<times> int) list" where
  "collect_booked [] = Inr []"
| "collect_booked (booking # rest) =
     (if getv booking ''booking_status'' \<in> set [PStr ''confirmed'', PStr ''pending'']
      then (case py_int_val (get_default booking ''duration'' (PInt 2)) of
              Inl e \<Rightarrow> Inl e
            | Inr booking_duration \<Rightarrow>
                (case collect_booked rest of
                   Inl e \<Rightarrow> Inl e
                 | Inr r \<Rightarrow> Inr ((getv booking ''event_time'', booking_duration) # r)))
      else collect_booked rest)"

text \<open>The loop over the catalogue that collects \<open>available_slots\<close>.\<close>

fun available_loop ::
  "string list \<Rightarrow> string \<Rightarrow> int \<Rightarrow> (pyval \<times> int) list \<Rightarrow> error + slot list" where
  "available_loop [] date duration booked_slots = Inr []"
| "available_loop (s # rest) date duration booked_slots =
     (case is_slot_available s duration booked_slots of
        Inl e \<Rightarrow> Inl e
      | Inr False \<Rightarrow> available_loop rest date duration booked_slots
      | Inr True \<Rightarrow>
          (case calculate_slot_score s date duration of
             Inl e \<Rightarrow> Inl e
           | Inr sc \<Rightarrow>
               (case available_loop rest date duration booked_slots of
                  Inl e \<Rightarrow> Inl e
                | Inr r \<Rightarrow>
                    Inr (\<lparr>time = s, score = sc, recommended = (sc > fl (7 / 10))\<rparr> # r))))"

text \<open>\<open>xs.sort(key=k, reverse=True)\<close>: the list is reversed, sorted stably by
  ascending key and reversed again, so that elements with equal keys keep their order.\<close>

definition sort_reverse :: "('a \<Rightarrow> 'k::linorder) \<Rightarrow> 'a list \<Rightarrow> 'a list" where
  "sort_reverse k xs = rev (sort_key k (rev xs))"

text \<open>
  \<open>SchedulingEngine.find_optimal_slots(photographer_id, date, duration)\<close>, with the
  bookings table as an argument. Any exception is caught and answered with the empty
  list.
\<close>

definition find_optimal_slots :: "pydict list \<Rightarrow> string \<Rightarrow> string \<Rightarrow> int \<Rightarrow> slot list" where
  "find_optimal_slots table photographer_id date duration =
     (case collect_booked (query_photographer_index table photographer_id date) of
        Inl e \<Rightarrow> []
      | Inr booked_slots \<Rightarrow>
          (case available_loop time_slots date duration booked_slots of
             Inl e \<Rightarrow> []
           | Inr available_slots \<Rightarrow> sort_reverse score available_slots))"

text \<open>
  The endpoint \<open>/api/optimal-slots\<close>: the query parameters are strings. An exception
  of \<open>int\<close> is not caught by the handler (the server answers 500).
\<close>

datatype slots_response = SlotsOk "slot list" | SlotsBadRequest | SlotsServerError error

definition get_optimal_slots :: "pydict list \<Rightarrow> (string \<times> string) list \<Rightarrow> slots_response" where
  "get_optimal_slots table args =
     (case (case map_of args ''duration'' of None \<Rightarrow> Inr 2 | Some s \<Rightarrow> py_int s) of
        Inl e \<Rightarrow> SlotsServerError e
      | Inr duration \<Rightarrow>
          (case (map_of args ''photographer_id'', map_of args ''date'') of
             (Some photographer_id, Some date) \<Rightarrow>
               if photographer_id = [] \<or> date = [] then SlotsBadRequest
               else SlotsOk (find_optimal_slots table photographer_id date duration)
           | _ \<Rightarrow> SlotsBadRequest))"

section \<open>Booking a photographer\<close>

text \<open>
  The endpoint \<open>/api/book-photographer\<close> of the demo application. The bookings are a
  dictionary from booking identifier to booking; the session holds strings; the request
  body is a JSON object. The identifier that \<open>uuid4\<close> returns and the current time
  are arguments; the code does not test that the identifier is unused. The function
  returns the response and the bookings after the request. An exception that the handler
  does not catch is answered with a server error and leaves the bookings as they were.
\<close>

datatype booking_response =
  Unauthorized | Conflict "pydict list" | Created string | ServerError error

definition active_on :: "pyval \<Rightarrow> pyval \<Rightarrow> pydict \<Rightarrow> bool" where
  "active_on photographer_id event_date booking =
     (getv booking ''photographer_id'' = photographer_id
      \<and> getv booking ''event_date'' = event_date
      \<and> getv booking ''booking_status'' \<in> set [PStr ''confirmed'', PStr ''pending''])"

definition book_photographer_api ::
  "(string \<times> string) list \<Rightarrow> pydict \<Rightarrow> (string \<times> pydict) list \<Rightarrow> string \<Rightarrow> string
   \<Rightarrow> booking_response \<times> (string \<times> pydict) list" where
  "book_photographer_api session data bookings booking_id now =
     (case map_of session ''user_id'' of
        None \<Rightarrow> (Unauthorized, bookings)
      | Some user_id \<Rightarrow>
          (let photographer_id = getv data ''photographer_id'';
               event_date = getv data ''event_date'';
               event_time = getv data ''event_time''
           in case py_int_val (get_default data ''duration'' (PInt 2)) of
                Inl e \<Rightarrow> (ServerError e, bookings)
              | Inr duration \<Rightarrow>
                  (let conflicts = filter (active_on photographer_id event_date) (map snd bookings)
                   in if conflicts \<noteq> [] then (Conflict conflicts, bookings)
                      else case map_of session ''username'' of
                             None \<Rightarrow> (ServerError KeyError, bookings)
                           | Some username \<Rightarrow>
                               (let booking =
                                      [(''booking_id'', PStr booking_id),
                                       (''user_id'', PStr user_id),
                                       (''photographer_id'', photographer_id),
                                       (''event_date'', event_date),
                                       (''event_time'', event_time),
                                       (''duration'', PInt duration),
                                       (''booking_status'', PStr ''pending''),
                                       (''created_at'', PStr now),
                                       (''client_name'', PStr username)]
                                in (Created booking_id,
                                    AList.update booking_id booking bookings)))))"

text \<open>
  The route \<open>/book/<photographer_id>\<close> of the application, on POST. The form holds
  strings. The bookings table is keyed by \<open>booking_id\<close>: \<open>put_item\<close> replaces the item
  with the same key, or adds the item. The exceptions of the \<open>try\<close> block are caught
  and reported to the user.
\<close>

datatype book_outcome = LoginRequired | MissingFields | NotAvailable | Submitted | Failed error

definition form_get :: "(string \<times> string) list \<Rightarrow> string \<Rightarrow> pyval" where
  "form_get form k = (case map_of form k of None \<Rightarrow> PNone | Some v \<Rightarrow> PStr v)"

fun truthy :: "pyval \<Rightarrow> bool" where
  "truthy PNone = False"
| "truthy (PStr v) = (v \<noteq> [])"
| "truthy (PInt n) = (n \<noteq> 0)"

definition put_item :: "pydict list \<Rightarrow> pydict \<Rightarrow> pydict list" where
  "put_item table item =
     (if list_ex (\<lambda>b. getv b ''booking_id'' = getv item ''booking_id'') table
      then map (\<lambda>b. if getv b ''booking_id'' = getv item ''booking_id'' then item else b) table
      else table @ [item])"

definition book_photographer ::
  "(string \<times> string) list \<Rightarrow> (string \<times> string) list \<Rightarrow> pydict list \<Rightarrow> string \<Rightarrow> string
   \<Rightarrow> string \<Rightarrow> book_outcome \<times> pydict list" where
  "book_photographer session form table photographer_id booking_id now =
     (case map_of session ''user_id'' of
        None \<Rightarrow> (LoginRequired, table)
      | Some user_id \<Rightarrow>
          (let event_date = form_get form ''event_date'';
               event_time = form_get form ''event_time'';
               event_type = form_get form ''event_type'';
               location = form_get form ''location'';
               duration = (case map_of form ''duration'' of None \<Rightarrow> ''2'' | Some v \<Rightarrow> v);
               special_requirements =
                 (case map_of form ''special_requirements'' of None \<Rightarrow> [] | Some v \<Rightarrow> v)
           in if \<not> list_all truthy [event_date, event_time, event_type, location]
              then (MissingFields, table)
              else if filter (active_on (PStr photographer_id) event_date) table \<noteq> []
              then (NotAvailable, table)
              else case py_int duration of
                     Inl e \<Rightarrow> (Failed e, table)
                   | Inr d \<Rightarrow>
                       (case (map_of session ''username'', map_of session ''email'') of
                          (Some username, Some email) \<Rightarrow>
                            (Submitted,
                             put_item table
                               [(''booking_id'', PStr booking_id),
                                (''user_id'', PStr user_id),
                                (''photographer_id'', PStr photographer_id),
                                (''event_date'', event_date),
                                (''event_time'', event_time),
                                (''event_type'', event_type),
                                (''location'', location),
                                (''duration'', PInt d),
                                (''special_requirements'', PStr special_requirements),
                                (''booking_status'', PStr ''pending''),
                                (''created_at'', PStr now),
                                (''client_name'', PStr username),
                                (''client_email'', PStr email)])
                        | _ \<Rightarrow> (Failed KeyError, table))))"

section \<open>The specification's formulations\<close>

text \<open>The overlap rule in the words of the specification: \<open>[a1,a2)\<close> and \<open>[b1,b2)\<close>
  overlap iff not (\<open>a2 \<le> b1\<close> or \<open>a1 \<ge> b2\<close>).\<close>

definition spec_overlap :: "int \<Rightarrow> int \<Rightarrow> int \<Rightarrow> int \<Rightarrow> bool" where
  "spec_overlap a1 a2 b1 b2 = (\<not> (a2 \<le> b1 \<or> a1 \<ge> b2))"

text \<open>The score formula in the words of the specification, for a start hour and a date
  that is or is not on a weekend: base 0.5, the four additive terms taken left to right
  in float arithmetic, then the clamp to \<open>[0, 1]\<close>. \<open>ind\<close> is the value 1 or 0 of a
  condition.\<close>

definition ind :: "bool \<Rightarrow> double" where
  "ind c = (if c then fl 1 else fl 0)"

definition spec_clamp :: "double \<Rightarrow> double \<Rightarrow> double \<Rightarrow> double" where
  "spec_clamp x lo hi = (if x < lo then lo else if hi < x then hi else x)"

definition spec_score_sum :: "int \<Rightarrow> bool \<Rightarrow> double" where
  "spec_score_sum h weekend =
     dadd (dsub (dadd (dadd (fl (5 / 10))
       (dmul (fl (3 / 10)) (ind (h \<in> {16, 17, 18}))))
       (dmul (fl (2 / 10)) (ind (h \<in> {10, 11, 12}))))
       (dmul (fl (2 / 10)) (ind (h < 9 \<or> h > 19))))
       (dmul (fl (1 / 10)) (ind weekend))"

definition spec_score :: "int \<Rightarrow> bool \<Rightarrow> double" where
  "spec_score h weekend = spec_clamp (spec_score_sum h weekend) (fl 0) (fl 1)"

text \<open>The same formula over the rational numbers, without any rounding.\<close>

definition exact_score :: "int \<Rightarrow> bool \<Rightarrow> rat" where
  "exact_score h weekend =
     (let t = 5 / 10 + (if h \<in> {16, 17, 18} then 3 / 10 else 0)
                + (if h \<in> {10, 11, 12} then 2 / 10 else 0)
                - (if h < 9 \<or> h > 19 then 2 / 10 else 0)
                + (if weekend then 1 / 10 else 0)
      in if t < 0 then 0 else if 1 < t then 1 else t)"

text \<open>The comparison \<open>d1 <= d2\<close> of two numbers, by their exact values.\<close>

fun num_val :: "pynum \<Rightarrow> float64" where
  "num_val (PyInt n) = Fin (of_int n)"
| "num_val (PyFloat (Fin r)) = fl64 r"
| "num_val (PyFloat x) = x"

definition num_le :: "pynum \<Rightarrow> pynum \<Rightarrow> bool" where
  "num_le a b = fle (num_val a) (num_val b)"

text \<open>A number converts when turning it into a float raises nothing: every float does,
  and an \<open>int\<close> does exactly when its magnitude is below \<open>2 ^ 1024 - 2 ^ 970\<close>.\<close>

definition converts :: "pynum \<Rightarrow> bool" where
  "converts v = (case to_float v of Inl e \<Rightarrow> False | Inr x \<Rightarrow> True)"

text \<open>The order of the returned slots in the words of the specification: by score
  descending, ties broken by the earlier start time (the earlier hour).\<close>

definition earlier_time :: "string \<Rightarrow> string \<Rightarrow> bool" where
  "earlier_time s t = (case (hour_of s, hour_of t) of (Inr a, Inr b) \<Rightarrow> a < b | _ \<Rightarrow> False)"

definition ranked_before :: "slot \<Rightarrow> slot \<Rightarrow> bool" where
  "ranked_before a b =
     (score a > score b \<or> (score a = score b \<and> earlier_time (time a) (time b)))"

text \<open>An example state for the booking claims: one pending booking of photographer
  \<open>p1\<close> on 2024-03-04 from 10:00 for two hours, a logged-in client, and a request for
  the same photographer and date from 14:00 for two hours.\<close>

definition example_booking :: pydict where
  "example_booking =
     [(''booking_id'', PStr ''b1''), (''user_id'', PStr ''u0''),
      (''photographer_id'', PStr ''p1''), (''event_date'', PStr ''2024-03-04''),
      (''event_time'', PStr ''10:00''), (''duration'', PInt 2),
      (''booking_status'', PStr ''pending'')]"

definition example_session :: "(string \<times> string) list" where
  "example_session = [(''user_id'', ''u1''), (''username'', ''ann''), (''email'', ''ann@example.org'')]"

definition example_request :: pydict where
  "example_request =
     [(''photographer_id'', PStr ''p1''), (''event_date'', PStr ''2024-03-04''),
      (''event_time'', PStr ''14:00''), (''duration'', PInt 2)]"

definition example_form :: "(string \<times> string) list" where
  "example_form =
     [(''event_date'', ''2024-03-04''), (''event_time'', ''14:00''),
      (''event_type'', ''portrait''), (''location'', ''Chennai''), (''duration'', ''2'')]"

section \<open>Properties of the rounding\<close>

lemma rhe_of_int: "rhe (of_int n) = n"
  by (simp add: rhe_def)

lemma rhe_bounds: "\<lfloor>q\<rfloor> \<le> rhe q \<and> rhe q \<le> \<lfloor>q\<rfloor> + 1"
  by (simp add: rhe_def Let_def)

lemma rhe_mono:
  assumes "q \<le> q'"
  shows "rhe q \<le> rhe q'"
proof (cases "\<lfloor>q\<rfloor> = \<lfloor>q'\<rfloor>")
  case True
  with assms show ?thesis by (auto simp: rhe_def Let_def)
next
  case False
  with assms have "\<lfloor>q\<rfloor> < \<lfloor>q'\<rfloor>" using floor_mono[OF assms] by linarith
  then have "rhe q \<le> \<lfloor>q'\<rfloor>" using rhe_bounds[of q] by linarith
  then show ?thesis using rhe_bounds[of q'] by linarith
qed

lemma rhe_minus: "rhe (- q) = - rhe q"
proof (cases "q \<in> \<int>")
  case True
  then obtain n where "q = of_int n" by (auto elim: Ints_cases)
  then show ?thesis using rhe_of_int[of "- n"] rhe_of_int[of n] by simp
next
  case False
  then have "q \<noteq> of_int \<lfloor>q\<rfloor>" by (metis Ints_of_int)
  then have f: "\<lfloor>- q\<rfloor> = - \<lfloor>q\<rfloor> - 1"
    by (simp add: floor_minus ceiling_altdef)
  have e: "even (- \<lfloor>q\<rfloor> - 1) \<longleftrightarrow> odd \<lfloor>q\<rfloor>" by simp
  show ?thesis
    unfolding rhe_def Let_def f e by (auto simp: algebra_simps)
qed

lemma dexp_bounds:
  assumes "x \<noteq> 0"
  shows "2 powi dexp x \<le> \<bar>x\<bar> \<and> \<bar>x\<bar> < 2 powi (dexp x + 1)"
proof -
  obtain p q where pq: "quotient_of \<bar>x\<bar> = (p, q)" by (cases "quotient_of \<bar>x\<bar>")
  have q0: "0 < q" using quotient_of_denom_pos[OF pq] .
  have x: "\<bar>x\<bar> = of_int p / of_int q" using quotient_of_div[OF pq] .
  have p0: "0 < p"
  proof -
    have "0 < \<bar>x\<bar>" using assms by simp
    then have "0 < (of_int p :: rat) / of_int q" using x by simp
    then show ?thesis using q0 by (simp add: zero_less_divide_iff)
  qed
  define a where "a = bitlen p"
  define b where "b = bitlen q"
  have a1: "1 \<le> a" using p0 by (simp add: a_def bitlen_alt_def)
  have b1: "1 \<le> b" using q0 by (simp add: b_def bitlen_alt_def)
  have pb: "(2::rat) powi (a - 1) \<le> of_int p" "of_int p < (2::rat) powi a"
  proof -
    from bitlen_bounds[OF p0] have "2 ^ nat (a - 1) \<le> p" "p < 2 ^ nat a" by (simp_all add: a_def)
    then have "(of_int (2 ^ nat (a - 1)) :: rat) \<le> of_int p" "(of_int p :: rat) < of_int (2 ^ nat a)"
      by (simp_all only: of_int_le_iff of_int_less_iff)
    then show "(2::rat) powi (a - 1) \<le> of_int p" "of_int p < (2::rat) powi a"
      using a1 by (simp_all add: power_int_def)
  qed
  have qb: "(2::rat) powi (b - 1) \<le> of_int q" "of_int q < (2::rat) powi b"
  proof -
    from bitlen_bounds[OF q0] have "2 ^ nat (b - 1) \<le> q" "q < 2 ^ nat b" by (simp_all add: b_def)
    then have "(of_int (2 ^ nat (b - 1)) :: rat) \<le> of_int q" "(of_int q :: rat) < of_int (2 ^ nat b)"
      by (simp_all only: of_int_le_iff of_int_less_iff)
    then show "(2::rat) powi (b - 1) \<le> of_int q" "of_int q < (2::rat) powi b"
      using b1 by (simp_all add: power_int_def)
  qed
  have qr: "0 < (of_int q :: rat)" using q0 by simp
  have lo: "(2::rat) powi (a - b - 1) \<le> \<bar>x\<bar>"
  proof -
    have "(2::rat) powi (a - b - 1) * of_int q \<le> 2 powi (a - b - 1) * 2 powi b"
      using qb(2) by (intro mult_left_mono) auto
    also have "\<dots> = 2 powi (a - 1)"
      by (simp add: power_int_add[symmetric])
    also have "\<dots> \<le> of_int p" by (rule pb(1))
    finally show ?thesis using qr by (simp add: x pos_le_divide_eq)
  qed
  have hi: "\<bar>x\<bar> < (2::rat) powi (a - b + 1)"
  proof -
    have "of_int p < (2::rat) powi a" by (rule pb(2))
    also have "\<dots> = 2 powi (a - b + 1) * 2 powi (b - 1)"
      by (simp add: power_int_add[symmetric])
    also have "\<dots> \<le> 2 powi (a - b + 1) * of_int q"
      using qb(1) by (intro mult_left_mono) auto
    finally show ?thesis using qr by (simp add: x pos_divide_less_eq)
  qed
  have d: "dexp x = (if 2 powi (a - b) \<le> \<bar>x\<bar> then a - b else a - b - 1)"
    by (simp add: dexp_def pq a_def b_def Let_def)
  show ?thesis
  proof (cases "2 powi (a - b) \<le> \<bar>x\<bar>")
    case True
    then show ?thesis using hi by (simp add: d)
  next
    case False
    then show ?thesis using lo by (simp add: d)
  qed
qed


lemma dexp_minus: "dexp (- x) = dexp x"
  by (simp add: dexp_def)

lemma fl_minus: "fl (- x) = - fl x"
  by (simp add: fl_def dexp_minus rhe_minus Let_def)

lemma dexp_mono:
  assumes "0 < x" "x \<le> y"
  shows "dexp x \<le> dexp y"
proof -
  have "2 powi dexp x \<le> x" using dexp_bounds[of x] assms by simp
  also have "x \<le> y" by fact
  also have "y < 2 powi (dexp y + 1)" using dexp_bounds[of y] assms by simp
  finally have lt: "(2::rat) powi dexp x < 2 powi (dexp y + 1)" .
  have "dexp x < dexp y + 1"
  proof (rule ccontr)
    assume "\<not> dexp x < dexp y + 1"
    then have "dexp y + 1 \<le> dexp x" by simp
    then have "(2::rat) powi (dexp y + 1) \<le> 2 powi dexp x"
      by (intro power_int_increasing) simp_all
    with lt show False by simp
  qed
  then show ?thesis by simp
qed

lemma fl_pos_bounds:
  assumes "0 < x"
  shows "2 powi dexp x \<le> fl x \<and> fl x \<le> 2 powi (dexp x + 1)"
proof -
  define u :: rat where "u = 2 powi (dexp x - 52)"
  have u0: "0 < u" by (simp add: u_def)
  have f: "fl x = of_int (rhe (x / u)) * u" using assms by (simp add: fl_def u_def Let_def)
  have e1: "2 powi dexp x = 2 ^ 52 * u"
    by (simp add: u_def power_int_diff)
  have e2: "2 powi (dexp x + 1) = 2 ^ 53 * u"
    by (simp add: u_def power_int_diff power_int_add)
  have "2 ^ 52 * u \<le> x" "x < 2 ^ 53 * u"
    using dexp_bounds[of x] assms by (simp_all add: e1 e2)
  then have b: "2 ^ 52 \<le> x / u" "x / u \<le> 2 ^ 53"
    using u0 by (simp_all add: pos_le_divide_eq pos_divide_le_eq)
  have "rhe (of_int (2 ^ 52)) \<le> rhe (x / u)" using b(1) by (intro rhe_mono) simp
  then have l: "2 ^ 52 \<le> rhe (x / u)" by (simp only: rhe_of_int)
  have "rhe (x / u) \<le> rhe (of_int (2 ^ 53))" using b(2) by (intro rhe_mono) simp
  then have h: "rhe (x / u) \<le> 2 ^ 53" by (simp only: rhe_of_int)
  have "(of_int (2 ^ 52) :: rat) \<le> of_int (rhe (x / u))" using l by (simp only: of_int_le_iff)
  then have l': "2 ^ 52 * u \<le> fl x" unfolding f using u0 by (intro mult_right_mono) simp_all
  have "(of_int (rhe (x / u)) :: rat) \<le> of_int (2 ^ 53)" using h by (simp only: of_int_le_iff)
  then have h': "fl x \<le> 2 ^ 53 * u" unfolding f using u0 by (intro mult_right_mono) simp_all
  show ?thesis using l' h' by (simp add: e1 e2)
qed

lemma fl_pos_mono:
  assumes "0 < x" "x \<le> y"
  shows "fl x \<le> fl y"
proof (cases "dexp x = dexp y")
  case True
  define u :: rat where "u = 2 powi (dexp x - 52)"
  have u0: "0 < u" by (simp add: u_def)
  have "x / u \<le> y / u" using assms u0 by (simp add: divide_right_mono)
  then have "rhe (x / u) \<le> rhe (y / u)" by (rule rhe_mono)
  then have "(of_int (rhe (x / u)) :: rat) * u \<le> of_int (rhe (y / u)) * u"
    using u0 by (intro mult_right_mono) simp_all
  then show ?thesis using assms True by (simp add: fl_def u_def Let_def)
next
  case False
  then have "dexp x + 1 \<le> dexp y" using dexp_mono[OF assms] by simp
  then have "(2::rat) powi (dexp x + 1) \<le> 2 powi dexp y"
    by (intro power_int_increasing) simp_all
  then show ?thesis using fl_pos_bounds[of x] fl_pos_bounds[of y] assms by linarith
qed

lemma fl_nonneg: "0 \<le> x \<Longrightarrow> 0 \<le> fl x"
proof (cases "x = 0")
  case True then show ?thesis by (simp add: fl_def)
next
  case False
  assume "0 \<le> x"
  with False have "0 < x" by simp
  from fl_pos_bounds[OF this] have "2 powi dexp x \<le> fl x" by simp
  moreover have "(0::rat) < 2 powi dexp x" by simp
  ultimately show ?thesis by linarith
qed

lemma fl_mono:
  assumes "x \<le> y"
  shows "fl x \<le> fl y"
proof -
  consider "0 < x" | "x \<le> 0" "0 \<le> y" | "y < 0" by linarith
  then show ?thesis
  proof cases
    case 1
    then show ?thesis using assms by (rule fl_pos_mono)
  next
    case 2
    have "0 \<le> fl (- x)" using 2 by (intro fl_nonneg) simp
    then have "fl x \<le> 0" by (simp add: fl_minus)
    moreover have "0 \<le> fl y" using 2 by (intro fl_nonneg)
    ultimately show ?thesis by linarith
  next
    case 3
    have "fl (- y) \<le> fl (- x)" using 3 assms by (intro fl_pos_mono) simp_all
    then show ?thesis by (simp add: fl_minus)
  qed
qed

section \<open>Evaluating strings and dates\<close>

lemmas str_eval = char_in_def is_digit_def digit_val_def is_space_def strip_def py_nat_def
  py_int_def MAX_STR_DIGITS_def split_colon_head_def hour_of_def lower_def lower_char_def
  char_of_eq_iff

lemmas date_eval = match_date_def match_m_def match_d_def orelse_def strptime_def
  days_in_month_def is_leap_def DAYS_IN_MONTH_def DAYS_BEFORE_MONTH_def
  toordinal_def weekday_def days_before_year_def days_before_month_def

lemma strptime_2024_03_04:
  "strptime ''2024-03-04'' = Inr \<lparr>year = 2024, month = 3, day = 4\<rparr>"
  by (simp add: str_eval date_eval)

lemma weekday_2024_03_04: "weekday \<lparr>year = 2024, month = 3, day = 4\<rparr> = 0"
  by (simp add: date_eval)

lemma toordinal_2024_03_04: "toordinal \<lparr>year = 2024, month = 3, day = 4\<rparr> = 738949"
  by (simp add: date_eval)

section \<open>Availability\<close>

lemma booked_loop_iff:
  assumes "\<forall>(bs, bd) \<in> set booked. \<exists>bh. hour_of_val bs = Inr bh"
  shows "booked_loop sh eh booked =
           Inr (\<not> (\<exists>(bs, bd) \<in> set booked. \<exists>bh. hour_of_val bs = Inr bh
                      \<and> spec_overlap sh eh bh (bh + bd)))"
  using assms
proof (induction booked)
  case Nil
  show ?case by simp
next
  case (Cons b booked)
  obtain bs bd where b: "b = (bs, bd)" by (cases b)
  from Cons.prems obtain bh where bh: "hour_of_val bs = Inr bh"
    by (auto simp: b)
  from Cons have IH: "booked_loop sh eh booked =
           Inr (\<not> (\<exists>(bs, bd) \<in> set booked. \<exists>bh. hour_of_val bs = Inr bh
                      \<and> spec_overlap sh eh bh (bh + bd)))"
    by simp
  show ?case
    by (auto simp: b bh IH spec_overlap_def Let_def)
qed

lemma hour_of_1000: "hour_of ''10:00'' = Inr 10"
  by (simp add: str_eval)
lemma hour_of_1100: "hour_of ''11:00'' = Inr 11"
  by (simp add: str_eval)
lemma hour_of_1200: "hour_of ''12:00'' = Inr 12"
  by (simp add: str_eval)

text \<open>
  C1. For a start time that reads as the hour \<open>sh\<close>, any duration \<open>d\<close> and any list of
  booked slots whose start times read as hours, \<open>is_slot_available\<close> returns a boolean,
  and it is \<open>False\<close> if and only if some booked slot \<open>[bh, bh + bd)\<close> overlaps the
  request \<open>[sh, sh + d)\<close> by the half-open rule of the specification.
\<close>

theorem is_slot_available_iff_overlap:
  assumes "hour_of start_time = Inr sh"
    and "\<forall>(bs, bd) \<in> set booked. \<exists>bh. hour_of_val bs = Inr bh"
  shows "\<exists>r. is_slot_available start_time d booked = Inr r
           \<and> (r = False \<longleftrightarrow>
                (\<exists>(bs, bd) \<in> set booked. \<exists>bh. hour_of_val bs = Inr bh
                     \<and> spec_overlap sh (sh + d) bh (bh + bd)))"
  using assms by (simp add: is_slot_available_def booked_loop_iff)

text \<open>The boundary cases: with 10:00 to 12:00 booked, the request 12:00 to 14:00 is
  available and the request 11:00 to 13:00 is not.\<close>

theorem is_slot_available_iff_overlap_witness:
  "is_slot_available ''12:00'' 2 [(PStr ''10:00'', 2)] = Inr True
   \<and> is_slot_available ''11:00'' 2 [(PStr ''10:00'', 2)] = Inr False"
proof -
  have b: "\<forall>(bs, bd) \<in> set [(PStr ''10:00'', 2::int)]. \<exists>bh. hour_of_val bs = Inr bh"
    by (simp add: hour_of_1000)
  from is_slot_available_iff_overlap[OF hour_of_1200 b, of 2]
  have 1: "is_slot_available ''12:00'' 2 [(PStr ''10:00'', 2)] = Inr True"
    by (auto simp: hour_of_1000 spec_overlap_def)
  from is_slot_available_iff_overlap[OF hour_of_1100 b, of 2]
  have 2: "is_slot_available ''11:00'' 2 [(PStr ''10:00'', 2)] = Inr False"
    by (auto simp: hour_of_1000 spec_overlap_def)
  show ?thesis using 1 2 by simp
qed

section \<open>Order of the returned slots\<close>

lemma insort_key_keeps_order:
  fixes k :: "'a \<Rightarrow> 'k::linorder"
  assumes "sorted_wrt (\<lambda>a b. k a < k b \<or> (k a = k b \<and> R a b)) ys"
    and "\<forall>y \<in> set ys. R x y"
  shows "sorted_wrt (\<lambda>a b. k a < k b \<or> (k a = k b \<and> R a b)) (insort_key k x ys)"
  using assms
proof (induction ys)
  case Nil
  show ?case by simp
next
  case (Cons y ys)
  show ?case
  proof (cases "k x \<le> k y")
    case True
    have "k x < k z \<or> (k x = k z \<and> R x z)" if "z \<in> set (y # ys)" for z
    proof -
      have "k y \<le> k z" using that Cons.prems(1) by auto
      with True have "k x \<le> k z" by simp
      moreover have "R x z" using that Cons.prems(2) by auto
      ultimately show ?thesis by auto
    qed
    with True Cons.prems(1) show ?thesis by simp
  next
    case False
    then have lt: "k y < k x" by simp
    have "sorted_wrt (\<lambda>a b. k a < k b \<or> (k a = k b \<and> R a b)) (insort_key k x ys)"
      using Cons by simp
    with False lt Cons.prems(1) show ?thesis by (auto simp: set_insort_key)
  qed
qed

lemma sort_key_keeps_order:
  fixes k :: "'a \<Rightarrow> 'k::linorder"
  assumes "sorted_wrt R xs"
  shows "sorted_wrt (\<lambda>a b. k a < k b \<or> (k a = k b \<and> R a b)) (sort_key k xs)"
  using assms
proof (induction xs)
  case Nil
  show ?case by simp
next
  case (Cons x xs)
  then show ?case by (simp add: insort_key_keeps_order)
qed

lemma sort_reverse_keeps_order:
  fixes k :: "'a \<Rightarrow> 'k::linorder"
  assumes "sorted_wrt R xs"
  shows "sorted_wrt (\<lambda>a b. k b < k a \<or> (k a = k b \<and> R a b)) (sort_reverse k xs)"
proof -
  have "sorted_wrt (\<lambda>a b. R b a) (rev xs)" using assms by (simp add: sorted_wrt_rev)
  then have "sorted_wrt (\<lambda>a b. k a < k b \<or> (k a = k b \<and> R b a)) (sort_key k (rev xs))"
    by (rule sort_key_keeps_order)
  then have "sorted_wrt (\<lambda>b a. k a < k b \<or> (k a = k b \<and> R b a)) (sort_reverse k xs)"
    by (simp add: sort_reverse_def sorted_wrt_rev)
  then show ?thesis by (rule sorted_wrt_mono_rel[rotated]) auto
qed

lemma available_loop_keeps_order:
  assumes "sorted_wrt P cat" and "available_loop cat date d booked = Inr av"
  shows "sorted_wrt (\<lambda>a b. P (time a) (time b)) av \<and> time ` set av \<subseteq> set cat"
  using assms
proof (induction cat arbitrary: av)
  case Nil
  then show ?case by simp
next
  case (Cons s cat)
  from Cons.prems(1) have P: "\<forall>t \<in> set cat. P s t" and srt: "sorted_wrt P cat" by simp_all
  show ?case
  proof (cases "is_slot_available s d booked")
    case (Inl e)
    with Cons.prems(2) show ?thesis by simp
  next
    case (Inr free)
    show ?thesis
    proof (cases free)
      case False
      with Inr Cons.prems(2) have "available_loop cat date d booked = Inr av" by simp
      from Cons.IH[OF srt this] show ?thesis by auto
    next
      case True
      with Inr Cons.prems(2) obtain sc r where
        r: "available_loop cat date d booked = Inr r"
        and av: "av = \<lparr>time = s, score = sc, recommended = (sc > fl (7 / 10))\<rparr> # r"
        by (auto split: sum.splits)
      from Cons.IH[OF srt r] P show ?thesis by (auto simp: av)
    qed
  qed
qed

lemma time_slots_hours:
  "map hour_of time_slots = map Inr [9, 10, 11, 12, 13, 14, 15, 16, 17, 18, 19, 20]"
  by (simp add: str_eval time_slots_def)

lemma time_slots_ascending: "sorted_wrt earlier_time time_slots"
  using time_slots_hours by (simp add: time_slots_def earlier_time_def)

text \<open>
  C8. Whatever the bookings table, the photographer, the date and the duration, the list
  returned by \<open>find_optimal_slots\<close> is ordered by score descending, and of two slots
  with equal scores the one with the earlier start time comes first: every slot stands
  in \<open>ranked_before\<close> to every slot after it. (The sort is stable and the catalogue
  is in ascending time.)
\<close>

theorem find_optimal_slots_ranked:
  "sorted_wrt ranked_before (find_optimal_slots table photographer_id date duration)"
proof (cases "collect_booked (query_photographer_index table photographer_id date)")
  case (Inl e)
  then show ?thesis by (simp add: find_optimal_slots_def)
next
  case (Inr booked)
  show ?thesis
  proof (cases "available_loop time_slots date duration booked")
    case (Inl e)
    with Inr show ?thesis by (simp add: find_optimal_slots_def)
  next
    case av: (Inr av)
    from available_loop_keeps_order[OF time_slots_ascending av]
    have "sorted_wrt (\<lambda>a b. earlier_time (time a) (time b)) av" by simp
    then have "sorted_wrt (\<lambda>a b. score b < score a
                 \<or> (score a = score b \<and> earlier_time (time a) (time b))) (sort_reverse score av)"
      by (rule sort_reverse_keeps_order)
    then have "sorted_wrt ranked_before (sort_reverse score av)"
      by (rule sorted_wrt_mono_rel[rotated]) (auto simp: ranked_before_def)
    with Inr av show ?thesis by (simp add: find_optimal_slots_def)
  qed
qed

section \<open>Evaluating the rounding\<close>

lemma dexp_eqI:
  assumes "2 powi e \<le> \<bar>x\<bar>" "\<bar>x\<bar> < 2 powi (e + 1)"
  shows "dexp x = e"
proof -
  have x0: "x \<noteq> 0"
  proof
    assume "x = 0"
    with assms(1) have "(2::rat) powi e \<le> 0" by simp
    moreover have "(0::rat) < 2 powi e" by simp
    ultimately show False by linarith
  qed
  note b = dexp_bounds[OF x0]
  have 1: "dexp x < e + 1"
  proof (rule ccontr)
    assume "\<not> dexp x < e + 1"
    then have "(2::rat) powi (e + 1) \<le> 2 powi dexp x" by (intro power_int_increasing) simp_all
    with b assms(2) show False by linarith
  qed
  have 2: "e < dexp x + 1"
  proof (rule ccontr)
    assume "\<not> e < dexp x + 1"
    then have "(2::rat) powi (dexp x + 1) \<le> 2 powi e" by (intro power_int_increasing) simp_all
    with b assms(1) show False by linarith
  qed
  from 1 2 show ?thesis by simp
qed

lemma rhe_near:
  assumes "\<bar>q - of_int n\<bar> < 1 / 2"
  shows "rhe q = n"
proof (cases "of_int n \<le> q")
  case True
  with assms have f: "\<lfloor>q\<rfloor> = n" by (intro floor_unique) linarith+
  show ?thesis using assms True by (simp add: rhe_def f Let_def)
next
  case False
  have e: "(of_int (n - 1) :: rat) = of_int n - 1" by simp
  have "of_int n - 1 \<le> q" "q < of_int n - 1 + 1" using assms False by linarith+
  then have f: "\<lfloor>q\<rfloor> = n - 1" unfolding e[symmetric] by (intro floor_unique)
  have "1 / 2 < q - of_int (n - 1)" using assms False by simp
  then show ?thesis using False by (simp add: rhe_def f Let_def)
qed

lemma rhe_tie:
  assumes "q = of_int f + 1 / 2"
  shows "rhe q = (if even f then f else f + 1)"
proof -
  have f: "\<lfloor>q\<rfloor> = f" unfolding assms by (intro floor_unique) simp_all
  show ?thesis by (simp add: rhe_def f Let_def) (simp add: assms)
qed

lemma fl_eqI:
  assumes "2 powi e \<le> \<bar>x\<bar>" "\<bar>x\<bar> < 2 powi (e + 1)"
    and "\<bar>x / 2 powi (e - 52) - of_int n\<bar> < 1 / 2"
    and "r = of_int n * 2 powi (e - 52)"
  shows "fl x = r"
proof -
  have x0: "x \<noteq> 0"
  proof
    assume "x = 0"
    with assms(1) have "(2::rat) powi e \<le> 0" by simp
    moreover have "(0::rat) < 2 powi e" by simp
    ultimately show False by linarith
  qed
  show ?thesis
    by (simp add: fl_def x0 dexp_eqI[OF assms(1,2)] rhe_near[OF assms(3)] assms(4) Let_def)
qed

lemma fl_tieI:
  assumes "2 powi e \<le> \<bar>x\<bar>" "\<bar>x\<bar> < 2 powi (e + 1)"
    and "x / 2 powi (e - 52) = of_int f + 1 / 2"
    and "r = of_int (if even f then f else f + 1) * 2 powi (e - 52)"
  shows "fl x = r"
proof -
  have x0: "x \<noteq> 0"
  proof
    assume "x = 0"
    with assms(1) have "(2::rat) powi e \<le> 0" by simp
    moreover have "(0::rat) < 2 powi e" by simp
    ultimately show False by linarith
  qed
  show ?thesis
    by (simp add: fl_def x0 dexp_eqI[OF assms(1,2)] rhe_tie[OF assms(3)] assms(4) Let_def)
qed

lemma fl_0: "fl 0 = 0" by (simp add: fl_def)

lemma rhe_range:
  assumes "0 < x"
  shows "2 ^ 52 \<le> rhe (x / 2 powi (dexp x - 52)) \<and> rhe (x / 2 powi (dexp x - 52)) \<le> 2 ^ 53"
proof -
  define u :: rat where "u = 2 powi (dexp x - 52)"
  have u0: "0 < u" by (simp add: u_def)
  have e1: "2 powi dexp x = 2 ^ 52 * u"
    by (simp add: u_def power_int_diff)
  have e2: "2 powi (dexp x + 1) = 2 ^ 53 * u"
    by (simp add: u_def power_int_diff power_int_add)
  have "2 ^ 52 * u \<le> x" "x < 2 ^ 53 * u"
    using dexp_bounds[of x] assms by (simp_all add: e1 e2)
  then have b: "2 ^ 52 \<le> x / u" "x / u \<le> 2 ^ 53"
    using u0 by (simp_all add: pos_le_divide_eq pos_divide_le_eq)
  have "rhe (of_int (2 ^ 52)) \<le> rhe (x / u)" using b(1) by (intro rhe_mono) simp
  then have l: "2 ^ 52 \<le> rhe (x / u)" by (simp only: rhe_of_int)
  have "rhe (x / u) \<le> rhe (of_int (2 ^ 53))" using b(2) by (intro rhe_mono) simp
  then have h: "rhe (x / u) \<le> 2 ^ 53" by (simp only: rhe_of_int)
  show ?thesis using l h by (simp add: u_def)
qed

lemma fl_idem_pos:
  assumes "0 < x"
  shows "fl (fl x) = fl x"
proof -
  define e where "e = dexp x"
  define u :: rat where "u = 2 powi (e - 52)"
  define n where "n = rhe (x / u)"
  have u0: "0 < u" by (simp add: u_def)
  have y: "fl x = of_int n * u" using assms by (simp add: fl_def n_def u_def e_def Let_def)
  have n: "2 ^ 52 \<le> n" "n \<le> 2 ^ 53" using rhe_range[OF assms] by (simp_all add: n_def u_def e_def)
  have e1: "2 powi e = 2 ^ 52 * u"
    by (simp add: u_def power_int_diff)
  have e2: "2 powi (e + 1) = 2 ^ 53 * u"
    by (simp add: u_def power_int_diff power_int_add)
  have e3: "2 powi (e + 1 + 1) = 2 ^ 54 * u"
    by (simp add: u_def power_int_diff power_int_add)
  have e4: "2 powi (e + 1 - 52) = 2 * u"
    by (simp add: u_def power_int_diff power_int_add)
  have "(0::int) < 2 ^ 52" by simp
  with n(1) have "0 < n" by linarith
  then have npos: "0 < (of_int n :: rat)" by simp
  show ?thesis
  proof (cases "n < 2 ^ 53")
    case True
    have lo: "(of_int (2 ^ 52) :: rat) \<le> of_int n" using n(1) by (simp only: of_int_le_iff)
    have hi: "(of_int n :: rat) < of_int (2 ^ 53)" using True by (simp only: of_int_less_iff)
    have 1: "2 powi e \<le> \<bar>of_int n * u\<bar>"
      using lo u0 npos by (simp add: e1 abs_mult)
    have 2: "\<bar>of_int n * u\<bar> < 2 powi (e + 1)"
      using hi u0 npos by (simp add: e2 abs_mult)
    have 3: "\<bar>of_int n * u / 2 powi (e - 52) - of_int n\<bar> < 1 / 2"
      using u0 by (simp add: u_def)
    show ?thesis unfolding y
      by (rule fl_eqI[OF 1 2 3]) (simp add: u_def)
  next
    case False
    with n(2) have n53: "n = 2 ^ 53" by simp
    have yv: "of_int n * u = 2 ^ 53 * u" by (simp add: n53)
    have "2 ^ 53 * u \<le> \<bar>of_int n * u\<bar>"
      using u0 by (simp add: yv abs_mult)
    then have 1: "2 powi (e + 1) \<le> \<bar>of_int n * u\<bar>"
      by (simp only: e2)
    have "\<bar>of_int n * u\<bar> < 2 ^ 54 * u"
      using u0 by (simp add: yv abs_mult)
    then have 2: "\<bar>of_int n * u\<bar> < 2 powi (e + 1 + 1)"
      by (simp only: e3)
    have "\<bar>of_int n * u / (2 * u) - of_int (2 ^ 52)\<bar> < 1 / 2"
      using u0 by (simp add: yv)
    then have 3: "\<bar>of_int n * u / 2 powi (e + 1 - 52) - of_int (2 ^ 52)\<bar> < 1 / 2"
      by (simp only: e4)
    have 4: "of_int n * u = of_int (2 ^ 52) * 2 powi (e + 1 - 52)"
      by (simp only: e4) (simp add: yv)
    show ?thesis unfolding y
      by (rule fl_eqI[OF 1 2 3 4])
  qed
qed

lemma fl_idem: "fl (fl x) = fl x"
proof -
  consider "0 < x" | "x = 0" | "0 < - x" by linarith
  then show ?thesis
  proof cases
    case 1
    then show ?thesis by (rule fl_idem_pos)
  next
    case 2
    then show ?thesis by (simp add: fl_0)
  next
    case 3
    from fl_idem_pos[OF 3] show ?thesis by (simp add: fl_minus)
  qed
qed

text \<open>The floats that occur on the inputs evaluated below.\<close>

lemma fl_val_0: "fl (1 / 10) = 3602879701896397 / 36028797018963968"
  by (rule fl_eqI[where e = "- 4" and n = 7205759403792794]) simp_all

lemma fl_val_1: "fl (3602879701896397 / 36028797018963968) = 3602879701896397 / 36028797018963968"
  by (rule fl_eqI[where e = "- 4" and n = 7205759403792794]) simp_all

lemma fl_val_2: "fl (5404319552844595 / 36028797018963968) = 5404319552844595 / 36028797018963968"
  by (rule fl_eqI[where e = "- 3" and n = 5404319552844595]) simp_all

lemma fl_val_3: "fl (3 / 20) = 5404319552844595 / 36028797018963968"
  by (rule fl_eqI[where e = "- 3" and n = 5404319552844595]) simp_all

lemma fl_val_4: "fl (1 / 5) = 3602879701896397 / 18014398509481984"
  by (rule fl_eqI[where e = "- 3" and n = 7205759403792794]) simp_all

lemma fl_val_5: "fl (3602879701896397 / 18014398509481984) = 3602879701896397 / 18014398509481984"
  by (rule fl_eqI[where e = "- 3" and n = 7205759403792794]) simp_all

lemma fl_val_6: "fl (5404319552844595 / 18014398509481984) = 5404319552844595 / 18014398509481984"
  by (rule fl_eqI[where e = "- 2" and n = 5404319552844595]) simp_all

lemma fl_val_7: "fl (3 / 10) = 5404319552844595 / 18014398509481984"
  by (rule fl_eqI[where e = "- 2" and n = 5404319552844595]) simp_all

lemma fl_val_8: "fl (14411518807585587 / 36028797018963968) = 3602879701896397 / 9007199254740992"
  by (rule fl_tieI[where e = "- 2" and f = 7205759403792793]) simp_all

lemma fl_val_9: "fl (3602879701896397 / 9007199254740992) = 3602879701896397 / 9007199254740992"
  by (rule fl_eqI[where e = "- 2" and n = 7205759403792794]) simp_all

lemma fl_val_10: "fl (1 / 2) = 1 / 2"
  by (rule fl_eqI[where e = "- 1" and n = 4503599627370496]) simp_all

lemma fl_val_11: "fl (5404319552844595 / 9007199254740992) = 5404319552844595 / 9007199254740992"
  by (rule fl_eqI[where e = "- 1" and n = 5404319552844595]) simp_all

lemma fl_val_12: "fl (21617278211378381 / 36028797018963968) = 5404319552844595 / 9007199254740992"
  by (rule fl_eqI[where e = "- 1" and n = 5404319552844595]) simp_all

lemma fl_val_13: "fl (3152519739159347 / 4503599627370496) = 3152519739159347 / 4503599627370496"
  by (rule fl_eqI[where e = "- 1" and n = 6305039478318694]) simp_all

lemma fl_val_14: "fl (7 / 10) = 3152519739159347 / 4503599627370496"
  by (rule fl_eqI[where e = "- 1" and n = 6305039478318694]) simp_all

lemma fl_val_15: "fl (12610078956637389 / 18014398509481984) = 3152519739159347 / 4503599627370496"
  by (rule fl_tieI[where e = "- 1" and f = 6305039478318694]) simp_all

lemma fl_val_16: "fl (7205759403792793 / 9007199254740992) = 7205759403792793 / 9007199254740992"
  by (rule fl_eqI[where e = "- 1" and n = 7205759403792793]) simp_all

lemma fl_val_17: "fl (28823037615171173 / 36028797018963968) = 7205759403792793 / 9007199254740992"
  by (rule fl_eqI[where e = "- 1" and n = 7205759403792793]) simp_all

lemma fl_val_18: "fl (14411518807585587 / 18014398509481984) = 3602879701896397 / 4503599627370496"
  by (rule fl_tieI[where e = "- 1" and f = 7205759403792793]) simp_all

lemma fl_val_19: "fl (4 / 5) = 3602879701896397 / 4503599627370496"
  by (rule fl_eqI[where e = "- 1" and n = 7205759403792794]) simp_all

lemma fl_val_20: "fl (3602879701896397 / 4503599627370496) = 3602879701896397 / 4503599627370496"
  by (rule fl_eqI[where e = "- 1" and n = 7205759403792794]) simp_all

lemma fl_val_21: "fl (9 / 10) = 8106479329266893 / 9007199254740992"
  by (rule fl_eqI[where e = "- 1" and n = 8106479329266893]) simp_all

lemma fl_val_22: "fl (8106479329266893 / 9007199254740992) = 8106479329266893 / 9007199254740992"
  by (rule fl_eqI[where e = "- 1" and n = 8106479329266893]) simp_all

lemma fl_val_23: "fl (32425917317067573 / 36028797018963968) = 8106479329266893 / 9007199254740992"
  by (rule fl_eqI[where e = "- 1" and n = 8106479329266893]) simp_all

lemma fl_val_24: "fl (1) = 1"
  by (rule fl_eqI[where e = "0" and n = 4503599627370496]) simp_all

lemma fl_val_25: "fl (11 / 10) = 2476979795053773 / 2251799813685248"
  by (rule fl_eqI[where e = "0" and n = 4953959590107546]) simp_all

lemma fl_val_26: "fl (2476979795053773 / 2251799813685248) = 2476979795053773 / 2251799813685248"
  by (rule fl_eqI[where e = "0" and n = 4953959590107546]) simp_all

lemma fl_val_27: "fl (2589569785738035 / 2251799813685248) = 2589569785738035 / 2251799813685248"
  by (rule fl_eqI[where e = "0" and n = 5179139571476070]) simp_all

lemma fl_val_28: "fl (23 / 20) = 2589569785738035 / 2251799813685248"
  by (rule fl_eqI[where e = "0" and n = 5179139571476070]) simp_all

lemma fl_val_29: "fl (5404319552844595 / 4503599627370496) = 5404319552844595 / 4503599627370496"
  by (rule fl_eqI[where e = "0" and n = 5404319552844595]) simp_all

lemma fl_val_30: "fl (6 / 5) = 5404319552844595 / 4503599627370496"
  by (rule fl_eqI[where e = "0" and n = 5404319552844595]) simp_all

lemma fl_val_31: "fl (13 / 10) = 5854679515581645 / 4503599627370496"
  by (rule fl_eqI[where e = "0" and n = 5854679515581645]) simp_all

lemma fl_val_32: "fl (5854679515581645 / 4503599627370496) = 5854679515581645 / 4503599627370496"
  by (rule fl_eqI[where e = "0" and n = 5854679515581645]) simp_all

lemma fl_val_33: "fl (3152519739159347 / 2251799813685248) = 3152519739159347 / 2251799813685248"
  by (rule fl_eqI[where e = "0" and n = 6305039478318694]) simp_all

lemma fl_val_34: "fl (7 / 5) = 3152519739159347 / 2251799813685248"
  by (rule fl_eqI[where e = "0" and n = 6305039478318694]) simp_all

lemma fl_val_35: "fl (3 / 2) = 3 / 2"
  by (rule fl_eqI[where e = "0" and n = 6755399441055744]) simp_all

lemma fl_val_36: "fl (2) = 2"
  by (rule fl_eqI[where e = "1" and n = 4503599627370496]) simp_all

lemma fl_val_37: "fl (4) = 4"
  by (rule fl_eqI[where e = "2" and n = 4503599627370496]) simp_all

lemma fl_val_38: "fl (5) = 5"
  by (rule fl_eqI[where e = "2" and n = 5629499534213120]) simp_all

lemma fl_val_39: "fl (288) = 288"
  by (rule fl_eqI[where e = "8" and n = 5066549580791808]) simp_all

lemma fl_val_40: "fl (162129586585337865 / 562949953421312) = 288"
  by (rule fl_eqI[where e = "8" and n = 5066549580791808]) simp_all

lemma fl_val_41: "fl (300) = 300"
  by (rule fl_eqI[where e = "8" and n = 5277655813324800]) simp_all

lemma fl_val_42: "fl (405323966463344625 / 1125899906842624) = 360"
  by (rule fl_eqI[where e = "8" and n = 6333186975989760]) simp_all

lemma fl_val_43: "fl (360) = 360"
  by (rule fl_eqI[where e = "8" and n = 6333186975989760]) simp_all

lemma fl_val_44: "fl (400) = 400"
  by (rule fl_eqI[where e = "8" and n = 7036874417766400]) simp_all

lemma fl_val_45: "fl (500) = 500"
  by (rule fl_eqI[where e = "8" and n = 8796093022208000]) simp_all

lemma fl_val_46: "fl (800) = 800"
  by (rule fl_eqI[where e = "9" and n = 7036874417766400]) simp_all

lemma fl_val_47: "fl (1200) = 1200"
  by (rule fl_eqI[where e = "10" and n = 5277655813324800]) simp_all

lemma fl_val_48: "fl (1500) = 1500"
  by (rule fl_eqI[where e = "10" and n = 6597069766656000]) simp_all

lemmas fl_vals = fl_0 fl_val_0 fl_val_1 fl_val_2 fl_val_3 fl_val_4 fl_val_5 fl_val_6 fl_val_7 fl_val_8 fl_val_9 fl_val_10 fl_val_11 fl_val_12 fl_val_13 fl_val_14 fl_val_15 fl_val_16 fl_val_17 fl_val_18 fl_val_19 fl_val_20 fl_val_21 fl_val_22 fl_val_23 fl_val_24 fl_val_25 fl_val_26 fl_val_27 fl_val_28 fl_val_29 fl_val_30 fl_val_31 fl_val_32 fl_val_33 fl_val_34 fl_val_35 fl_val_36 fl_val_37 fl_val_38 fl_val_39 fl_val_40 fl_val_41 fl_val_42 fl_val_43 fl_val_44 fl_val_45 fl_val_46 fl_val_47 fl_val_48

section \<open>Durations that are not positive\<close>

lemma hour_of_0900: "hour_of ''09:00'' = Inr 9"
  by (simp add: str_eval)

text \<open>
  C7, as stated, fails: a duration of zero or less is not rejected. The availability
  check answers \<open>True\<close> for it when nothing is booked, and the endpoint answers the
  request for duration 0 with all twelve slots of the catalogue.
\<close>

theorem zero_duration_accepted:
  "is_slot_available ''09:00'' 0 [] = Inr True
   \<and> is_slot_available ''09:00'' (- 2) [] = Inr True
   \<and> get_optimal_slots []
        [(''photographer_id'', ''p1''), (''date'', ''2024-03-04''), (''duration'', ''0'')]
      = SlotsOk (find_optimal_slots [] ''p1'' ''2024-03-04'' 0)
   \<and> map time (find_optimal_slots [] ''p1'' ''2024-03-04'' 0)
      = [''16:00'', ''17:00'', ''18:00'', ''10:00'', ''11:00'', ''12:00'',
         ''09:00'', ''13:00'', ''14:00'', ''15:00'', ''19:00'', ''20:00'']"
  by (simp add: is_slot_available_def get_optimal_slots_def find_optimal_slots_def
      query_photographer_index_def time_slots_def calculate_slot_score_def sort_reverse_def
      strptime_2024_03_04 weekday_2024_03_04 str_eval dadd_def dsub_def fl_vals Let_def)

text \<open>
  C7, amended. For a start time that reads as the hour \<open>sh\<close>, booked slots whose start
  times read as hours, and a duration \<open>d \<le> 0\<close>, the availability check signals no
  error. It returns a boolean by the same overlap test on the window \<open>[sh, sh + d)\<close>:
  \<open>False\<close> exactly when some booked slot \<open>[bh, bh + bd)\<close> has \<open>bh < sh + d\<close> and
  \<open>sh < bh + bd\<close>, which needs the start hour strictly inside that slot; so it returns
  \<open>True\<close> whenever nothing is booked.
\<close>

theorem nonpositive_duration_not_rejected:
  assumes "d \<le> 0"
    and "hour_of start_time = Inr sh"
    and "\<forall>(bs, bd) \<in> set booked. \<exists>bh. hour_of_val bs = Inr bh"
  shows "\<exists>r. is_slot_available start_time d booked = Inr r
           \<and> (r = False \<longleftrightarrow>
                (\<exists>(bs, bd) \<in> set booked. \<exists>bh. hour_of_val bs = Inr bh
                     \<and> bh < sh + d \<and> sh < bh + bd))
           \<and> (r = False \<longrightarrow>
                (\<exists>(bs, bd) \<in> set booked. \<exists>bh. hour_of_val bs = Inr bh
                     \<and> bh < sh \<and> sh < bh + bd))
           \<and> (booked = [] \<longrightarrow> r = True)"
proof -
  have "is_slot_available start_time d booked =
          Inr (\<not> (\<exists>(bs, bd) \<in> set booked. \<exists>bh. hour_of_val bs = Inr bh
                      \<and> spec_overlap sh (sh + d) bh (bh + bd)))"
    using assms(2,3) by (simp add: is_slot_available_def booked_loop_iff)
  moreover have "spec_overlap sh (sh + d) bh (bh + bd) = (bh < sh + d \<and> sh < bh + bd)" for bh bd
    by (auto simp: spec_overlap_def)
  ultimately have r: "is_slot_available start_time d booked =
          Inr (\<not> (\<exists>(bs, bd) \<in> set booked. \<exists>bh. hour_of_val bs = Inr bh
                      \<and> bh < sh + d \<and> sh < bh + bd))"
    by simp
  show ?thesis
    unfolding r using assms(1) by fastforce
qed

theorem nonpositive_duration_not_rejected_witness:
  "is_slot_available ''09:00'' 0 [(PStr ''10:00'', 2)] = Inr True
   \<and> is_slot_available ''11:00'' 0 [(PStr ''10:00'', 2)] = Inr False"
proof -
  have b: "\<forall>(bs, bd) \<in> set [(PStr ''10:00'', 2::int)]. \<exists>bh. hour_of_val bs = Inr bh"
    by (simp add: hour_of_1000)
  have d: "(0::int) \<le> 0" by simp
  from nonpositive_duration_not_rejected[OF d hour_of_0900 b]
  have 1: "is_slot_available ''09:00'' 0 [(PStr ''10:00'', 2)] = Inr True"
    by (auto simp: hour_of_1000)
  from nonpositive_duration_not_rejected[OF d hour_of_1100 b]
  have 2: "is_slot_available ''11:00'' 0 [(PStr ''10:00'', 2)] = Inr False"
    by (auto simp: hour_of_1000)
  from 1 2 show ?thesis by simp
qed

section \<open>The slot score\<close>

lemma fl_1: "fl 1 = 1"
  by (simp add: fl_vals)

lemma clamp_eq: "min 1 (max 0 (s::rat)) = spec_clamp s 0 1"
  by (simp add: spec_clamp_def min_def max_def)

lemma calculate_slot_score_spec:
  assumes "hour_of time_slot = Inr h" and "strptime date = Inr dt"
  shows "calculate_slot_score time_slot date duration = Inr (spec_score h (weekday dt \<ge> 5))"
  using assms
  by (simp add: calculate_slot_score_def spec_score_def spec_score_sum_def ind_def
      dadd_def dsub_def dmul_def fl_0 fl_1 fl_idem clamp_eq Let_def)

lemma spec_score_range: "0 \<le> spec_score h w \<and> spec_score h w \<le> 1"
  by (simp add: spec_score_def spec_clamp_def fl_0 fl_1)

lemma available_loop_scores:
  assumes "available_loop cat date d booked = Inr av" and "s \<in> set av"
  shows "calculate_slot_score (time s) date d = Inr (score s)
         \<and> recommended s = (score s > fl (7 / 10))"
  using assms
proof (induction cat arbitrary: av)
  case Nil
  then show ?case by simp
next
  case (Cons c cat)
  show ?case
  proof (cases "is_slot_available c d booked")
    case (Inl e)
    with Cons.prems show ?thesis by simp
  next
    case (Inr free)
    show ?thesis
    proof (cases free)
      case False
      with Inr Cons.prems have "available_loop cat date d booked = Inr av" by simp
      from Cons.IH[OF this Cons.prems(2)] show ?thesis .
    next
      case True
      with Inr Cons.prems(1) obtain sc r where
        sc: "calculate_slot_score c date d = Inr sc"
        and r: "available_loop cat date d booked = Inr r"
        and av: "av = \<lparr>time = c, score = sc, recommended = (sc > fl (7 / 10))\<rparr> # r"
        by (auto split: sum.splits)
      from Cons.prems(2) av consider
        "s = \<lparr>time = c, score = sc, recommended = (sc > fl (7 / 10))\<rparr>" | "s \<in> set r"
        by auto
      then show ?thesis
      proof cases
        case 1
        then show ?thesis by (simp add: sc)
      next
        case 2
        from Cons.IH[OF r 2] show ?thesis .
      qed
    qed
  qed
qed

lemma find_optimal_slots_scores:
  assumes "s \<in> set (find_optimal_slots table photographer_id date duration)"
  shows "calculate_slot_score (time s) date duration = Inr (score s)
         \<and> recommended s = (score s > fl (7 / 10))"
proof (cases "collect_booked (query_photographer_index table photographer_id date)")
  case (Inl e)
  with assms show ?thesis by (simp add: find_optimal_slots_def)
next
  case (Inr booked)
  show ?thesis
  proof (cases "available_loop time_slots date duration booked")
    case (Inl e)
    with Inr assms show ?thesis by (simp add: find_optimal_slots_def)
  next
    case av: (Inr av)
    with Inr assms have "s \<in> set av"
      by (simp add: find_optimal_slots_def sort_reverse_def)
    from available_loop_scores[OF av this] show ?thesis .
  qed
qed

lemma hour_classes:
  fixes h :: int
  obtains "h \<in> {16, 17, 18}" "h \<notin> {10, 11, 12}" "\<not> (h < 9 \<or> h > 19)"
    | "h \<notin> {16, 17, 18}" "h \<in> {10, 11, 12}" "\<not> (h < 9 \<or> h > 19)"
    | "h \<notin> {16, 17, 18}" "h \<notin> {10, 11, 12}" "h < 9 \<or> h > 19"
    | "h \<notin> {16, 17, 18}" "h \<notin> {10, 11, 12}" "\<not> (h < 9 \<or> h > 19)"
proof -
  have "(h \<in> {16, 17, 18} \<and> h \<notin> {10, 11, 12} \<and> \<not> (h < 9 \<or> h > 19))
      \<or> (h \<notin> {16, 17, 18} \<and> h \<in> {10, 11, 12} \<and> \<not> (h < 9 \<or> h > 19))
      \<or> (h \<notin> {16, 17, 18} \<and> h \<notin> {10, 11, 12} \<and> (h < 9 \<or> h > 19))
      \<or> (h \<notin> {16, 17, 18} \<and> h \<notin> {10, 11, 12} \<and> \<not> (h < 9 \<or> h > 19))"
    by simp presburger
  then show ?thesis using that by blast
qed

lemmas score_eval = spec_score_def spec_score_sum_def spec_clamp_def ind_def exact_score_def
  dadd_def dsub_def dmul_def fl_vals Let_def

lemma spec_score_exact:
  "\<bar>spec_score h w - exact_score h w\<bar> \<le> 1 / 2 ^ 53
   \<and> (spec_score h w > fl (7 / 10)) = (exact_score h w > 7 / 10)"
proof (cases h rule: hour_classes)
  case 1
  then show ?thesis by (cases w) (simp_all add: score_eval del: insert_iff)
next
  case 2
  then show ?thesis by (cases w) (simp_all add: score_eval del: insert_iff)
next
  case 3
  then show ?thesis by (cases w) (simp_all add: score_eval del: insert_iff)
next
  case 4
  then show ?thesis by (cases w) (simp_all add: score_eval del: insert_iff)
qed


text \<open>
  C3. For a start time that reads as the hour \<open>h\<close> and a date that parses, the slot
  score is the formula of the specification, \<open>clamp(0.5 + 0.3[h in 16..18] +
  0.2[h in 10..12] - 0.2[h < 9 or h > 19] + 0.1[weekend], 0, 1)\<close>, evaluated in the
  program's float arithmetic; it lies in \<open>[0, 1]\<close>; and every slot that
  \<open>find_optimal_slots\<close> returns carries the score of its time and the flag
  \<open>recommended\<close> exactly when that score is greater than the float 0.7. Against the
  same formula over the rationals the float score is off by at most \<open>2^-53\<close>, and
  "greater than 0.7" gives the same answer for both.
\<close>

theorem slot_score_formula:
  assumes "hour_of time_slot = Inr h" and "strptime date = Inr dt"
  shows "calculate_slot_score time_slot date duration = Inr (spec_score h (weekday dt \<ge> 5))
         \<and> 0 \<le> spec_score h (weekday dt \<ge> 5) \<and> spec_score h (weekday dt \<ge> 5) \<le> 1
         \<and> (\<forall>s \<in> set (find_optimal_slots table photographer_id date duration).
               calculate_slot_score (time s) date duration = Inr (score s)
               \<and> recommended s = (score s > fl (7 / 10)))
         \<and> \<bar>spec_score h (weekday dt \<ge> 5) - exact_score h (weekday dt \<ge> 5)\<bar> \<le> 1 / 2 ^ 53
         \<and> (spec_score h (weekday dt \<ge> 5) > fl (7 / 10))
             = (exact_score h (weekday dt \<ge> 5) > 7 / 10)"
  using calculate_slot_score_spec[OF assms] spec_score_range[of h "weekday dt \<ge> 5"]
    spec_score_exact[of h "weekday dt \<ge> 5"] find_optimal_slots_scores
  by blast

lemma strptime_2024_03_09:
  "strptime ''2024-03-09'' = Inr \<lparr>year = 2024, month = 3, day = 9\<rparr>"
  by (simp add: str_eval date_eval)

lemma weekday_2024_03_09: "weekday \<lparr>year = 2024, month = 3, day = 9\<rparr> = 5"
  by (simp add: date_eval)

text \<open>At 10:00 on Saturday 2024-03-09 the score is the float \<open>0.7999999999999999\<close>,
  one rounding below the rational value \<open>0.8\<close>.\<close>

theorem slot_score_formula_witness:
  "calculate_slot_score ''10:00'' ''2024-03-09'' 2 = Inr (7205759403792793 / 9007199254740992)
   \<and> exact_score 10 True = 8 / 10
   \<and> \<lparr>time = ''16:00'', score = 3602879701896397 / 4503599627370496, recommended = True\<rparr>
       \<in> set (find_optimal_slots [] ''p1'' ''2024-03-04'' 2)
   \<and> calculate_slot_score ''16:00'' ''2024-03-04'' 2 = Inr (3602879701896397 / 4503599627370496)
   \<and> fl (7 / 10) < 3602879701896397 / 4503599627370496"
proof -
  have v: "spec_score 10 True = 7205759403792793 / 9007199254740992"
    by (simp add: score_eval)
  have x: "exact_score 10 True = 8 / 10"
    by (simp add: exact_score_def)
  note f = slot_score_formula[OF hour_of_1000 strptime_2024_03_09, of 2 "[]" "''p1''"]
  from f have 1: "calculate_slot_score ''10:00'' ''2024-03-09'' 2 = Inr (spec_score 10 True)"
    by (simp add: weekday_2024_03_09)
  have m: "\<lparr>time = ''16:00'', score = 3602879701896397 / 4503599627370496, recommended = True\<rparr>
       \<in> set (find_optimal_slots [] ''p1'' ''2024-03-04'' 2)"
    by (simp add: is_slot_available_def find_optimal_slots_def
      query_photographer_index_def time_slots_def calculate_slot_score_def sort_reverse_def
      strptime_2024_03_04 weekday_2024_03_04 str_eval dadd_def dsub_def fl_vals Let_def)
  note g = slot_score_formula[OF hour_of_1000 strptime_2024_03_04, of 2 "[]" "''p1''"]
  from g m have 2: "calculate_slot_score ''16:00'' ''2024-03-04'' 2
                      = Inr (3602879701896397 / 4503599627370496)
                    \<and> True = (fl (7 / 10) < 3602879701896397 / 4503599627370496)"
    by fastforce
  from 1 2 v x m show ?thesis by simp
qed

lemma spec_score_bounds:
  "fl (3 / 10) \<le> spec_score h w \<and> spec_score h w \<le> fl (9 / 10)
   \<and> spec_score h w = spec_score_sum h w"
proof (cases h rule: hour_classes)
  case 1
  then show ?thesis by (cases w) (simp_all add: score_eval del: insert_iff)
next
  case 2
  then show ?thesis by (cases w) (simp_all add: score_eval del: insert_iff)
next
  case 3
  then show ?thesis by (cases w) (simp_all add: score_eval del: insert_iff)
next
  case 4
  then show ?thesis by (cases w) (simp_all add: score_eval del: insert_iff)
qed

lemma time_slots_readable:
  assumes "time_slot \<in> set time_slots"
  shows "\<exists>h. hour_of time_slot = Inr h \<and> 9 \<le> h \<and> h \<le> 20"
proof -
  from assms have "hour_of time_slot \<in> set (map hour_of time_slots)" by simp
  then have "hour_of time_slot \<in> set (map Inr [9, 10, 11, 12, 13, 14, 15, 16, 17, 18, 19, 20 :: int])"
    by (simp only: time_slots_hours)
  then show ?thesis by auto
qed

text \<open>
  C10. For every start time of the catalogue (its hour is between 9 and 20) and every
  date that parses, the score lies between the floats 0.3 and 0.9, and it is the sum of
  the formula itself: neither clamp is active. The bonus for the hours 16 to 18 and the
  bonus for the hours 10 to 12 never apply together. (The bounds are the floats: the
  float 0.3 is slightly below 3/10 and the float 0.9 slightly above 9/10.)
\<close>

theorem catalogue_score_bounds:
  assumes "time_slot \<in> set time_slots" and "strptime date = Inr dt"
  shows "\<exists>h s. hour_of time_slot = Inr h \<and> 9 \<le> h \<and> h \<le> 20
           \<and> calculate_slot_score time_slot date duration = Inr s
           \<and> fl (3 / 10) \<le> s \<and> s \<le> fl (9 / 10)
           \<and> s = spec_score_sum h (weekday dt \<ge> 5)
           \<and> \<not> (h \<in> {16, 17, 18} \<and> h \<in> {10, 11, 12})"
proof -
  from time_slots_readable[OF assms(1)] obtain h where
    h: "hour_of time_slot = Inr h" "9 \<le> h" "h \<le> 20" by blast
  have "\<not> (h \<in> {16, 17, 18} \<and> h \<in> {10, 11, 12})" by auto
  with h calculate_slot_score_spec[OF h(1) assms(2), of duration]
    spec_score_bounds[of h "weekday dt \<ge> 5"]
  show ?thesis by metis
qed

lemma hour_of_2000: "hour_of ''20:00'' = Inr 20"
  by (simp add: str_eval)

text \<open>Both bounds are attained: 20:00 on a weekday scores 0.3, 16:00 on a Saturday
  scores 0.9.\<close>

theorem catalogue_score_bounds_witness:
  "calculate_slot_score ''20:00'' ''2024-03-04'' 2 = Inr (fl (3 / 10))
   \<and> calculate_slot_score ''16:00'' ''2024-03-09'' 2 = Inr (fl (9 / 10))"
proof -
  have m1: "''20:00'' \<in> set time_slots" by (simp add: time_slots_def)
  have m2: "''16:00'' \<in> set time_slots" by (simp add: time_slots_def)
  have h16: "hour_of ''16:00'' = Inr 16" by (simp add: str_eval)
  have v1: "spec_score_sum 20 False = fl (3 / 10)" by (simp add: score_eval)
  have v2: "spec_score_sum 16 True = fl (9 / 10)" by (simp add: score_eval)
  from catalogue_score_bounds[OF m1 strptime_2024_03_04, of 2]
  have 1: "calculate_slot_score ''20:00'' ''2024-03-04'' 2 = Inr (fl (3 / 10))"
    using v1 by (auto simp: hour_of_2000 weekday_2024_03_04)
  from catalogue_score_bounds[OF m2 strptime_2024_03_09, of 2]
  have 2: "calculate_slot_score ''16:00'' ''2024-03-09'' 2 = Inr (fl (9 / 10))"
    using v2 by (auto simp: h16 weekday_2024_03_09)
  from 1 2 show ?thesis by simp
qed

section \<open>Submitting a booking\<close>

lemma update_fresh:
  assumes "k \<notin> fst ` set al"
  shows "AList.update k v al = al @ [(k, v)]"
  using assms by (induction al) auto

lemma hour_of_1400: "hour_of ''14:00'' = Inr 14"
  by (simp add: str_eval)

lemmas dict_eval = getv_def get_default_def active_on_def example_booking_def
  example_session_def example_request_def example_form_def

text \<open>
  C2, as stated, fails twice. With 10:00 to 12:00 booked, the request for 14:00 to 16:00
  on the same date does not overlap it, and is answered with the conflict all the same,
  by the endpoint of the demo application and by the route of the application. And a
  booking can be overwritten: the new booking is written under the identifier that
  \<open>uuid4\<close> returns without a test that the identifier is unused, so if it is the
  identifier \<open>b1\<close> of a stored booking (here one of photographer \<open>p1\<close> on the same
  date, cancelled), that booking is replaced by the new one.
\<close>

theorem booking_conflict_without_overlap:
  "book_photographer_api example_session example_request [(''b1'', example_booking)] ''b2'' ''now''
     = (Conflict [example_booking], [(''b1'', example_booking)])
   \<and> book_photographer example_session example_form [example_booking] ''p1'' ''b2'' ''now''
     = (NotAvailable, [example_booking])
   \<and> hour_of_val (getv example_request ''event_time'') = Inr 14
   \<and> hour_of_val (getv example_booking ''event_time'') = Inr 10
   \<and> py_int_val (getv example_request ''duration'') = Inr 2
   \<and> py_int_val (getv example_booking ''duration'') = Inr 2
   \<and> \<not> spec_overlap 14 (14 + 2) 10 (10 + 2)
   \<and> book_photographer_api example_session example_request
        [(''b1'', AList.update ''booking_status'' (PStr ''cancelled'') example_booking)]
        ''b1'' ''now''
     = (Created ''b1'',
        [(''b1'',
          [(''booking_id'', PStr ''b1''), (''user_id'', PStr ''u1''),
           (''photographer_id'', PStr ''p1''), (''event_date'', PStr ''2024-03-04''),
           (''event_time'', PStr ''14:00''), (''duration'', PInt 2),
           (''booking_status'', PStr ''pending''), (''created_at'', PStr ''now''),
           (''client_name'', PStr ''ann'')])])"
  by (simp add: book_photographer_api_def book_photographer_def form_get_def dict_eval
      hour_of_1400 hour_of_1000 spec_overlap_def Let_def)

text \<open>
  C2, amended. For a logged-in client (the session holds the user and the name) and a
  duration that reads as an integer, whatever identifier \<open>uuid4\<close> returns: the request
  fails with the conflict that lists the bookings of that photographer on that date in
  status pending or confirmed exactly when there is at least one, whatever its hours, and
  then the bookings stay as they were. When there is none, the identifier is returned
  and the new booking, in status pending and with the fields of the request, is stored
  under it; every booking stored under another identifier stays as it was. If the
  identifier was unused, exactly one booking is added after the existing ones. If it was
  in use, the booking stored under it is overwritten by the new one and no booking is
  added (the identifiers stored are the same, in the same order).
\<close>

theorem book_photographer_api_by_date:
  assumes "map_of session ''user_id'' = Some user_id"
    and "map_of session ''username'' = Some username"
    and "py_int_val (get_default data ''duration'' (PInt 2)) = Inr d"
  shows "(filter (active_on (getv data ''photographer_id'') (getv data ''event_date''))
            (map snd bookings) \<noteq> [] \<longrightarrow>
          book_photographer_api session data bookings booking_id now =
            (Conflict (filter (active_on (getv data ''photographer_id'') (getv data ''event_date''))
                        (map snd bookings)),
             bookings))
       \<and> (filter (active_on (getv data ''photographer_id'') (getv data ''event_date''))
            (map snd bookings) = [] \<longrightarrow>
          (\<exists>booking.
             booking =
               [(''booking_id'', PStr booking_id), (''user_id'', PStr user_id),
                (''photographer_id'', getv data ''photographer_id''),
                (''event_date'', getv data ''event_date''),
                (''event_time'', getv data ''event_time''),
                (''duration'', PInt d), (''booking_status'', PStr ''pending''),
                (''created_at'', PStr now), (''client_name'', PStr username)]
           \<and> fst (book_photographer_api session data bookings booking_id now) = Created booking_id
           \<and> map_of (snd (book_photographer_api session data bookings booking_id now)) booking_id
               = Some booking
           \<and> (\<forall>k. k \<noteq> booking_id \<longrightarrow>
                 map_of (snd (book_photographer_api session data bookings booking_id now)) k
                 = map_of bookings k)
           \<and> (booking_id \<notin> fst ` set bookings \<longrightarrow>
                 snd (book_photographer_api session data bookings booking_id now)
                 = bookings @ [(booking_id, booking)])
           \<and> (booking_id \<in> fst ` set bookings \<longrightarrow>
                 map fst (snd (book_photographer_api session data bookings booking_id now))
                 = map fst bookings)))"
proof -
  have upd: "map fst (AList.update k v al) = map fst al"
    if "k \<in> fst ` set al" for k and v :: pydict and al
    using that by (induction al) auto
  show ?thesis
    using assms
    by (simp add: book_photographer_api_def update_fresh upd AList.update_conv' Let_def)
qed

theorem book_photographer_api_by_date_witness:
  "book_photographer_api example_session example_request [] ''b2'' ''now'' =
     (Created ''b2'',
      [(''b2'',
        [(''booking_id'', PStr ''b2''), (''user_id'', PStr ''u1''),
         (''photographer_id'', PStr ''p1''), (''event_date'', PStr ''2024-03-04''),
         (''event_time'', PStr ''14:00''), (''duration'', PInt 2),
         (''booking_status'', PStr ''pending''), (''created_at'', PStr ''now''),
         (''client_name'', PStr ''ann'')])])
   \<and> book_photographer_api example_session example_request
        [(''b1'', example_booking)] ''b2'' ''now'' =
     (Conflict [example_booking], [(''b1'', example_booking)])
   \<and> map_of (snd (book_photographer_api example_session example_request
        [(''b1'', AList.update ''booking_status'' (PStr ''cancelled'') example_booking)]
        ''b1'' ''now'')) ''b1'' =
     Some [(''booking_id'', PStr ''b1''), (''user_id'', PStr ''u1''),
         (''photographer_id'', PStr ''p1''), (''event_date'', PStr ''2024-03-04''),
         (''event_time'', PStr ''14:00''), (''duration'', PInt 2),
         (''booking_status'', PStr ''pending''), (''created_at'', PStr ''now''),
         (''client_name'', PStr ''ann'')]
   \<and> map fst (snd (book_photographer_api example_session example_request
        [(''b1'', AList.update ''booking_status'' (PStr ''cancelled'') example_booking)]
        ''b1'' ''now'')) = [''b1'']"
proof -
  have u: "map_of example_session ''user_id'' = Some ''u1''" by (simp add: example_session_def)
  have n: "map_of example_session ''username'' = Some ''ann''" by (simp add: example_session_def)
  have d: "py_int_val (get_default example_request ''duration'' (PInt 2)) = Inr 2"
    by (simp add: dict_eval)
  have c0: "filter (active_on (getv example_request ''photographer_id'')
              (getv example_request ''event_date'')) (map snd []) = []" by simp
  have c1: "filter (active_on (getv example_request ''photographer_id'')
              (getv example_request ''event_date'')) (map snd [(''b1'', example_booking)])
            = [example_booking]"
    by (simp add: dict_eval)
  from book_photographer_api_by_date[OF u n d, of "[]" "''b2''" "''now''"] c0
  have 1: "book_photographer_api example_session example_request [] ''b2'' ''now'' =
     (Created ''b2'',
      [(''b2'',
        [(''booking_id'', PStr ''b2''), (''user_id'', PStr ''u1''),
         (''photographer_id'', PStr ''p1''), (''event_date'', PStr ''2024-03-04''),
         (''event_time'', PStr ''14:00''), (''duration'', PInt 2),
         (''booking_status'', PStr ''pending''), (''created_at'', PStr ''now''),
         (''client_name'', PStr ''ann'')])])"
    by (simp add: getv_def get_default_def example_request_def prod_eq_iff)
  from book_photographer_api_by_date[OF u n d, of "[(''b1'', example_booking)]" "''b2''" "''now''"] c1
  have 2: "book_photographer_api example_session example_request
        [(''b1'', example_booking)] ''b2'' ''now'' =
     (Conflict [example_booking], [(''b1'', example_booking)])"
    by simp
  have c2: "filter (active_on (getv example_request ''photographer_id'')
              (getv example_request ''event_date''))
              (map snd [(''b1'', AList.update ''booking_status'' (PStr ''cancelled'')
                                  example_booking)]) = []"
    by (simp add: dict_eval)
  from book_photographer_api_by_date[OF u n d,
      of "[(''b1'', AList.update ''booking_status'' (PStr ''cancelled'') example_booking)]"
         "''b1''" "''now''"] c2
  have 3: "map_of (snd (book_photographer_api example_session example_request
        [(''b1'', AList.update ''booking_status'' (PStr ''cancelled'') example_booking)]
        ''b1'' ''now'')) ''b1'' =
     Some [(''booking_id'', PStr ''b1''), (''user_id'', PStr ''u1''),
         (''photographer_id'', PStr ''p1''), (''event_date'', PStr ''2024-03-04''),
         (''event_time'', PStr ''14:00''), (''duration'', PInt 2),
         (''booking_status'', PStr ''pending''), (''created_at'', PStr ''now''),
         (''client_name'', PStr ''ann'')]
   \<and> map fst (snd (book_photographer_api example_session example_request
        [(''b1'', AList.update ''booking_status'' (PStr ''cancelled'') example_booking)]
        ''b1'' ''now'')) = [''b1'']"
    by (simp add: getv_def get_default_def example_request_def)
  from 1 2 3 show ?thesis by simp
qed

text \<open>The route of the application tests the same: any pending or confirmed booking
  of the photographer on the date makes the photographer unavailable.\<close>

lemma book_photographer_by_date:
  assumes "map_of session ''user_id'' = Some user_id"
    and "list_all truthy [form_get form ''event_date'', form_get form ''event_time'',
                          form_get form ''event_type'', form_get form ''location'']"
    and "filter (active_on (PStr photographer_id) (form_get form ''event_date'')) table \<noteq> []"
  shows "book_photographer session form table photographer_id booking_id now =
           (NotAvailable, table)"
  using assms by (simp add: book_photographer_def Let_def)

section \<open>Rounding with underflow and overflow\<close>

lemma fl_pow2: "fl (2 powi k) = 2 powi k"
proof (rule fl_eqI[where e = k and n = "2 ^ 52"])
  show "2 powi k \<le> \<bar>(2::rat) powi k\<bar>" by simp
  show "\<bar>(2::rat) powi k\<bar> < 2 powi (k + 1)"
    by (simp add: power_int_add)
  have "(2::rat) powi k / 2 powi (k - 52) = 2 ^ 52"
    by (simp add: power_int_diff)
  then show "\<bar>(2::rat) powi k / 2 powi (k - 52) - of_int (2 ^ 52)\<bar> < 1 / 2" by simp
  show "(2::rat) powi k = of_int (2 ^ 52) * 2 powi (k - 52)"
    by (simp add: power_int_diff)
qed

lemma sub_ulp_pos: "0 < sub_ulp" by (simp add: sub_ulp_def)

lemma min_normal_eq: "min_normal = 2 ^ 52 * sub_ulp"
proof -
  have "(2::rat) powi (- 1022) = 2 powi (52 + (- 1074))" by simp
  also have "\<dots> = 2 powi 52 * 2 powi (- 1074)" by (rule power_int_add) simp
  finally show ?thesis by (simp add: min_normal_def sub_ulp_def)
qed

lemma min_normal_pos: "0 < min_normal" by (simp add: min_normal_def)

lemma rnd_sub_bounds:
  assumes "\<bar>x\<bar> < min_normal"
  shows "- min_normal \<le> rnd x \<and> rnd x \<le> min_normal"
proof -
  from assms have "- (2 ^ 52 * sub_ulp) < x" "x < 2 ^ 52 * sub_ulp"
    by (simp_all add: min_normal_eq abs_less_iff)
  then have "of_int (- (2 ^ 52)) \<le> x / sub_ulp" "x / sub_ulp \<le> of_int (2 ^ 52)"
    using sub_ulp_pos by (simp_all add: pos_le_divide_eq pos_divide_le_eq)
  then have "rhe (of_int (- (2 ^ 52))) \<le> rhe (x / sub_ulp)"
    "rhe (x / sub_ulp) \<le> rhe (of_int (2 ^ 52))"
    by (auto intro: rhe_mono)
  then have "- (2 ^ 52) \<le> rhe (x / sub_ulp)" "rhe (x / sub_ulp) \<le> 2 ^ 52"
    by (simp_all only: rhe_of_int)
  then have "(of_int (- (2 ^ 52)) :: rat) \<le> of_int (rhe (x / sub_ulp))"
    "(of_int (rhe (x / sub_ulp)) :: rat) \<le> of_int (2 ^ 52)"
    by (simp_all only: of_int_le_iff)
  then have "of_int (- (2 ^ 52)) * sub_ulp \<le> of_int (rhe (x / sub_ulp)) * sub_ulp"
    "of_int (rhe (x / sub_ulp)) * sub_ulp \<le> of_int (2 ^ 52) * sub_ulp"
    using sub_ulp_pos by (intro mult_right_mono, simp_all)+
  then show ?thesis using assms by (simp add: rnd_def min_normal_eq)
qed

lemma rnd_sub_lt:
  assumes "\<bar>x\<bar> < min_normal"
  shows "\<bar>rnd x\<bar> < 2 ^ 1024"
proof -
  from rnd_sub_bounds[OF assms] have "\<bar>rnd x\<bar> \<le> min_normal" by (simp add: abs_le_iff)
  also have "min_normal < (2::rat) ^ 1024"
  proof -
    have "(2::rat) powi (- 1022) < 2 powi 1024" by (intro power_int_strict_increasing) simp_all
    then show ?thesis by (simp add: min_normal_def)
  qed
  finally show ?thesis .
qed

lemma fl_min_normal: "fl min_normal = min_normal"
  unfolding min_normal_def by (rule fl_pow2)

lemma rnd_mono:
  assumes "x \<le> y"
  shows "rnd x \<le> rnd y"
proof -
  consider "\<bar>x\<bar> < min_normal" "\<bar>y\<bar> < min_normal"
    | "\<not> \<bar>x\<bar> < min_normal" "\<not> \<bar>y\<bar> < min_normal"
    | "\<bar>x\<bar> < min_normal" "\<not> \<bar>y\<bar> < min_normal"
    | "\<not> \<bar>x\<bar> < min_normal" "\<bar>y\<bar> < min_normal"
    by blast
  then show ?thesis
  proof cases
    case 1
    have "x / sub_ulp \<le> y / sub_ulp" using assms sub_ulp_pos by (simp add: divide_right_mono)
    then have "rhe (x / sub_ulp) \<le> rhe (y / sub_ulp)" by (rule rhe_mono)
    then have "(of_int (rhe (x / sub_ulp)) :: rat) * sub_ulp \<le> of_int (rhe (y / sub_ulp)) * sub_ulp"
      using sub_ulp_pos by (intro mult_right_mono) simp_all
    with 1 show ?thesis by (simp add: rnd_def)
  next
    case 2
    with fl_mono[OF assms] show ?thesis by (simp add: rnd_def)
  next
    case 3
    with assms have "min_normal \<le> y" by linarith
    then have "fl min_normal \<le> fl y" by (rule fl_mono)
    then have "min_normal \<le> rnd y" using 3 by (simp add: rnd_def fl_min_normal)
    with rnd_sub_bounds[OF 3(1)] show ?thesis by linarith
  next
    case 4
    with assms have "x \<le> - min_normal" by linarith
    then have "fl x \<le> fl (- min_normal)" by (rule fl_mono)
    then have "rnd x \<le> - min_normal" using 4 by (simp add: rnd_def fl_minus fl_min_normal)
    with rnd_sub_bounds[OF 4(2)] show ?thesis by linarith
  qed
qed

lemma rnd_0: "rnd 0 = 0"
  using min_normal_pos by (simp add: rnd_def rhe_def)

lemma rnd_nonneg: "0 \<le> x \<Longrightarrow> 0 \<le> rnd x"
  using rnd_mono[of 0 x] by (simp add: rnd_0)

lemma rnd_nonpos: "x \<le> 0 \<Longrightarrow> rnd x \<le> 0"
  using rnd_mono[of x 0] by (simp add: rnd_0)

lemma fl64_not_NaN [simp]: "fl64 x \<noteq> NaN"
  by (simp add: fl64_def)

lemma fle_PInf: "x \<noteq> NaN \<Longrightarrow> fle x PInf"
  by (cases x) simp_all

lemma fle_NInf: "x \<noteq> NaN \<Longrightarrow> fle NInf x"
  by (cases x) simp_all

lemma fl64_mono:
  assumes "x \<le> y"
  shows "fle (fl64 x) (fl64 y)"
proof -
  note g = rnd_mono[OF assms]
  show ?thesis
  proof (cases "2 ^ 1024 \<le> \<bar>rnd x\<bar>")
    case ox: True
    show ?thesis
    proof (cases "0 < x")
      case True
      then have "0 \<le> rnd x" by (intro rnd_nonneg) simp
      with ox g have "2 ^ 1024 \<le> \<bar>rnd y\<bar>" by simp
      moreover have "0 < y" using True assms by simp
      ultimately show ?thesis using ox True by (simp add: fl64_def)
    next
      case False
      with ox have "fl64 x = NInf" by (simp add: fl64_def)
      then show ?thesis by (simp add: fle_NInf)
    qed
  next
    case nx: False
    show ?thesis
    proof (cases "2 ^ 1024 \<le> \<bar>rnd y\<bar>")
      case oy: True
      show ?thesis
      proof (cases "0 < y")
        case True
        with oy have "fl64 y = PInf" by (simp add: fl64_def)
        then show ?thesis by (simp add: fle_PInf)
      next
        case False
        then have "rnd y \<le> 0" by (intro rnd_nonpos) simp
        with oy g have "2 ^ 1024 \<le> \<bar>rnd x\<bar>" by simp
        with nx show ?thesis by simp
      qed
    next
      case False
      with nx g show ?thesis by (simp add: fl64_def)
    qed
  qed
qed

lemma rnd_normal: "min_normal \<le> \<bar>x\<bar> \<Longrightarrow> rnd x = fl x"
  by (simp add: rnd_def)

lemma fl64_normal:
  assumes "min_normal \<le> \<bar>x\<bar>" and "\<bar>fl x\<bar> < 2 ^ 1024"
  shows "fl64 x = Fin (fl x)"
  using assms by (simp add: fl64_def rnd_normal)

lemma fl64_0: "fl64 0 = Fin 0"
  by (simp add: fl64_def rnd_0)

text \<open>Values between \<open>2 ^ -20\<close> and \<open>2 ^ 100\<close> in magnitude are far from both ends.\<close>

lemma fl64_mid:
  assumes "1 / 2 ^ 20 \<le> \<bar>x\<bar>" and "\<bar>x\<bar> \<le> 2 ^ 100"
  shows "fl64 x = Fin (fl x)"
proof (rule fl64_normal)
  have "min_normal \<le> (2::rat) powi (- 20)"
    unfolding min_normal_def by (intro power_int_increasing) simp_all
  also have "\<dots> = 1 / 2 ^ 20" by (simp add: power_int_minus field_simps)
  finally show "min_normal \<le> \<bar>x\<bar>" using assms(1) by simp
  have e: "fl (2 ^ 100) = (2::rat) ^ 100" using fl_pow2[of 100] by simp
  have "fl \<bar>x\<bar> \<le> fl (2 ^ 100)" using assms(2) by (rule fl_mono)
  then have "fl \<bar>x\<bar> \<le> 2 ^ 100" by (simp only: e)
  moreover have "\<bar>fl x\<bar> = fl \<bar>x\<bar>"
  proof (cases "0 \<le> x")
    case True
    then show ?thesis using fl_nonneg[of x] by simp
  next
    case False
    then have "0 \<le> fl (- x)" by (intro fl_nonneg) simp
    with False show ?thesis by (simp add: fl_minus)
  qed
  moreover have "(2::rat) ^ 100 < 2 ^ 1024" by simp
  ultimately show "\<bar>fl x\<bar> < 2 ^ 1024" by linarith
qed

lemma fl64_overflow:
  assumes "2 ^ 1024 \<le> x"
  shows "fl64 x = PInf"
proof -
  have p: "(0::rat) < 2 ^ 1024" by simp
  with assms have x0: "0 < x" by linarith
  have "rnd (2 powi 1024) \<le> rnd x" using assms by (intro rnd_mono) simp
  moreover have "rnd (2 powi 1024) = 2 powi 1024"
  proof -
    have "(2::rat) powi (- 1022) \<le> 2 powi 1024" by (intro power_int_increasing) simp_all
    moreover have "\<bar>(2::rat) powi 1024\<bar> = 2 powi 1024" by (intro abs_of_pos) simp
    ultimately have "min_normal \<le> \<bar>(2::rat) powi 1024\<bar>"
      by (simp only: min_normal_def)
    then have "rnd (2 powi 1024) = fl (2 powi 1024)" by (rule rnd_normal)
    then show ?thesis by (simp only: fl_pow2)
  qed
  ultimately have "2 powi 1024 \<le> rnd x" by (simp only:)
  then have "2 ^ 1024 \<le> rnd x" by simp
  then have "2 ^ 1024 \<le> \<bar>rnd x\<bar>" by linarith
  with x0 show ?thesis by (simp add: fl64_def)
qed

lemma fl64_underflow_neg:
  assumes "x \<le> - (2 ^ 1024)"
  shows "fl64 x = NInf"
proof -
  have p: "(0::rat) < 2 ^ 1024" by simp
  with assms have x0: "\<not> 0 < x" by linarith
  have "rnd x \<le> rnd (- (2 powi 1024))" using assms by (intro rnd_mono) simp
  moreover have "rnd (- (2 powi 1024)) = - (2 powi 1024)"
  proof -
    have "(2::rat) powi (- 1022) \<le> 2 powi 1024" by (intro power_int_increasing) simp_all
    moreover have "\<bar>- ((2::rat) powi 1024)\<bar> = 2 powi 1024" by simp
    ultimately have "min_normal \<le> \<bar>- ((2::rat) powi 1024)\<bar>"
      by (simp only: min_normal_def)
    then have "rnd (- (2 powi 1024)) = fl (- (2 powi 1024))" by (rule rnd_normal)
    then show ?thesis by (simp only: fl_minus fl_pow2)
  qed
  ultimately have "rnd x \<le> - (2 powi 1024)" by (simp only:)
  then have "rnd x \<le> - (2 ^ 1024)" by simp
  then have "2 ^ 1024 \<le> \<bar>rnd x\<bar>" by linarith
  with x0 show ?thesis by (simp add: fl64_def)
qed

text \<open>A float is rounded to itself.\<close>

lemma rnd_idem: "rnd (rnd x) = rnd x"
proof (cases "\<bar>x\<bar> < min_normal")
  case True
  define n where "n = rhe (x / sub_ulp)"
  have y: "rnd x = of_int n * sub_ulp" using True by (simp add: rnd_def n_def)
  show ?thesis
  proof (cases "\<bar>rnd x\<bar> < min_normal")
    case s: True
    have "of_int n * sub_ulp / sub_ulp = (of_int n :: rat)" using sub_ulp_pos by simp
    then have q: "rnd x / sub_ulp = of_int n" by (simp only: y)
    have "rnd (rnd x) = of_int (rhe (rnd x / sub_ulp)) * sub_ulp"
      using s by (simp only: rnd_def[of "rnd x"] if_True)
    also have "\<dots> = of_int n * sub_ulp" by (simp only: q rhe_of_int)
    finally show ?thesis by (simp only: y)
  next
    case False
    with rnd_sub_bounds[OF True] have "rnd x = min_normal \<or> rnd x = - min_normal"
      by linarith
    then show ?thesis
    proof
      assume "rnd x = min_normal"
      then show ?thesis using min_normal_pos by (simp add: rnd_def[of min_normal] fl_min_normal)
    next
      assume "rnd x = - min_normal"
      then show ?thesis
        using min_normal_pos by (simp add: rnd_def[of "- min_normal"] fl_minus fl_min_normal)
    qed
  qed
next
  case False
  then have y: "rnd x = fl x" by (simp add: rnd_def)
  have "min_normal \<le> \<bar>fl x\<bar>"
  proof (cases "0 \<le> x")
    case True
    with False have "min_normal \<le> x" by simp
    then have "fl min_normal \<le> fl x" by (rule fl_mono)
    then show ?thesis using min_normal_pos by (simp add: fl_min_normal)
  next
    case neg: False
    with False have "x \<le> - min_normal" by simp
    then have "fl x \<le> fl (- min_normal)" by (rule fl_mono)
    then show ?thesis using min_normal_pos by (simp add: fl_minus fl_min_normal)
  qed
  then show ?thesis by (simp add: y rnd_def[of "fl x"] fl_idem)
qed

lemma fl64_idem:
  assumes "fl64 x = Fin y"
  shows "fl64 y = Fin y"
proof -
  from assms have y: "y = rnd x" and b: "\<not> 2 ^ 1024 \<le> \<bar>rnd x\<bar>"
    by (auto simp: fl64_def split: if_splits)
  show ?thesis unfolding y using b by (simp add: fl64_def rnd_idem)
qed

lemma fl64_Fin_mono:
  assumes "fl64 x = Fin a" "fl64 y = Fin b" "x \<le> y"
  shows "a \<le> b"
  using fl64_mono[OF assms(3)] assms(1,2) by simp

lemma fle_refl: "x \<noteq> NaN \<Longrightarrow> fle x x"
  by (cases x) simp_all

lemma fle_trans: "fle x y \<Longrightarrow> fle y z \<Longrightarrow> fle x z"
  by (cases x; cases y; cases z) simp_all

lemma fle_not_NaN: "fle x y \<Longrightarrow> x \<noteq> NaN \<and> y \<noteq> NaN"
  by (cases x; cases y) simp_all

lemma py_max_ge: "a \<noteq> NaN \<Longrightarrow> fle a (py_max a b)"
  by (simp add: py_max_def flt_def fle_refl)

lemma py_max_mono:
  assumes "fle x y" and "a \<noteq> NaN"
  shows "fle (py_max a x) (py_max a y)"
  using assms by (cases a; cases x; cases y) (auto simp: py_max_def flt_def)

lemma fdiv_mono:
  assumes "fle x y" and "0 < c"
  shows "fle (fdiv x c) (fdiv y c)"
proof (cases x)
  case (Fin a)
  show ?thesis
  proof (cases y)
    case (Fin b)
    with \<open>x = Fin a\<close> assms have "a / c \<le> b / c" by (simp add: divide_right_mono)
    then show ?thesis using Fin \<open>x = Fin a\<close> by (simp add: fl64_mono)
  next
    case PInf
    then show ?thesis using \<open>x = Fin a\<close> by (simp add: fle_PInf)
  qed (use assms \<open>x = Fin a\<close> in simp_all)
next
  case PInf
  with assms show ?thesis by (cases y) simp_all
next
  case NInf
  with assms show ?thesis by (cases y) (simp_all add: fle_NInf)
next
  case NaN
  with assms show ?thesis by simp
qed

lemma fround2_mono:
  assumes "fle x y"
  shows "fle (fround2 x) (fround2 y)"
proof (cases x)
  case (Fin a)
  show ?thesis
  proof (cases y)
    case (Fin b)
    with \<open>x = Fin a\<close> assms have "a \<le> b" by simp
    then have "rhe (a * 100) \<le> rhe (b * 100)" by (intro rhe_mono) simp
    then have "(of_int (rhe (a * 100)) :: rat) / 100 \<le> of_int (rhe (b * 100)) / 100"
      by (simp add: divide_right_mono)
    then show ?thesis using Fin \<open>x = Fin a\<close> by (simp add: fl64_mono)
  next
    case PInf
    then show ?thesis using \<open>x = Fin a\<close> by (simp add: fle_PInf)
  qed (use assms \<open>x = Fin a\<close> in simp_all)
next
  case PInf
  with assms show ?thesis by (cases y) simp_all
next
  case NInf
  with assms show ?thesis by (cases y) (simp_all add: fle_NInf)
next
  case NaN
  with assms show ?thesis by simp
qed

text \<open>Products of floats that are at least some positive bound.\<close>

lemma fmul_lower:
  assumes "fle (Fin p) a" and "fle (Fin q) c" and "0 < p" and "0 < q"
  shows "fle (fl64 (p * q)) (fmul a c)"
proof (cases a)
  case a: (Fin a')
  with assms have pa: "p \<le> a'" "0 < a'" by simp_all
  show ?thesis
  proof (cases c)
    case (Fin c')
    with assms have "q \<le> c'" by simp
    with pa assms(3,4) have "p * q \<le> a' * c'" by (intro mult_mono) simp_all
    then show ?thesis using a Fin by (simp add: fl64_mono)
  next
    case PInf
    then show ?thesis using a pa by (simp add: fle_PInf)
  qed (use assms in simp_all)
next
  case PInf
  show ?thesis
  proof (cases c)
    case (Fin c')
    with assms have "0 < c'" by simp
    then show ?thesis using Fin PInf by (simp add: fle_PInf)
  next
    case c: PInf
    then show ?thesis using PInf by (simp add: fle_PInf)
  qed (use assms in simp_all)
qed (use assms in simp_all)

lemma fmul_mono_left:
  assumes "fle a b" and "fle (Fin p) a" and "fle (Fin q) c" and "0 < p" and "0 < q"
  shows "fle (fmul a c) (fmul b c)"
proof -
  from assms(1,2) have pb: "fle (Fin p) b" by (rule fle_trans[rotated])
  show ?thesis
  proof (cases c)
    case c: (Fin c')
    with assms have c0: "0 < c'" by simp
    show ?thesis
    proof (cases a)
      case a: (Fin a')
      show ?thesis
      proof (cases b)
        case (Fin b')
        with a assms(1) have "a' \<le> b'" by simp
        with c0 have "a' * c' \<le> b' * c'" by (simp add: mult_right_mono)
        then show ?thesis using a c Fin by (simp add: fl64_mono)
      next
        case PInf
        then show ?thesis using a c c0 by (simp add: fle_PInf)
      qed (use assms a in simp_all)
    next
      case PInf
      with assms(1) have "b = PInf" by (cases b) simp_all
      with PInf c c0 show ?thesis by simp
    qed (use assms in simp_all)
  next
    case c: PInf
    have "fmul a PInf = PInf" using assms(2,4) by (cases a) auto
    moreover have "fmul b PInf = PInf" using pb assms(4) by (cases b) auto
    ultimately show ?thesis using c by simp
  qed (use assms in simp_all)
qed

lemma fmul_mono_right:
  assumes "fle b c" and "fle (Fin p) a" and "fle (Fin q) b" and "0 < p" and "0 < q"
  shows "fle (fmul a b) (fmul a c)"
proof -
  from assms(1,3) have qc: "fle (Fin q) c" by (rule fle_trans[rotated])
  show ?thesis
  proof (cases a)
    case a: (Fin a')
    with assms have a0: "0 < a'" by simp
    show ?thesis
    proof (cases b)
      case b: (Fin b')
      show ?thesis
      proof (cases c)
        case (Fin c')
        with b assms(1) have "b' \<le> c'" by simp
        with a0 have "a' * b' \<le> a' * c'" by (simp add: mult_left_mono)
        then show ?thesis using a b Fin by (simp add: fl64_mono)
      next
        case PInf
        then show ?thesis using a b a0 by (simp add: fle_PInf)
      qed (use assms b in simp_all)
    next
      case PInf
      with assms(1) have "c = PInf" by (cases c) simp_all
      with PInf a a0 show ?thesis by simp
    qed (use assms in simp_all)
  next
    case a: PInf
    have "fmul PInf b = PInf" using assms(3,5) by (cases b) auto
    moreover have "fmul PInf c = PInf" using qc assms(5) by (cases c) auto
    ultimately show ?thesis using a by simp
  qed (use assms in simp_all)
qed

section \<open>The quote\<close>

lemma rhe_28800: "rhe 28800 = 28800"
  using rhe_of_int[of 28800] by simp

lemma rhe_120000: "rhe 120000 = 120000"
  using rhe_of_int[of 120000] by simp

lemma fl_quote_wedding: "fl (1351079888211148875 / 1125899906842624) = 1200"
  by (rule fl_eqI[where e = "10" and n = 5277655813324800]) simp_all

lemmas quote_eval = calculate_dynamic_price_def calculate_demand_multiplier_def
  strptime_2024_03_04 weekday_2024_03_04 toordinal_2024_03_04 MAXORDINAL_def
  base_prices_def location_multipliers_def except_quote_def str_eval dadd_def py_max_def
  flt_def fl64_mid fl64_overflow rhe_28800 rhe_120000 fl_quote_wedding fl_vals Let_def


subsection \<open>Numbers that convert to a float\<close>

lemma converts_float: "converts (PyFloat x)"
  by (cases x) (simp_all add: converts_def)

lemma to_float_float: "\<exists>y. to_float (PyFloat x) = Inr y"
  by (cases x) simp_all

lemma converts_iff: "converts v \<longleftrightarrow> (\<exists>x. to_float v = Inr x)"
  by (simp add: converts_def split: sum.split)

lemma fle_fl64_right:
  assumes "fle (Fin a) (fl64 r)"
  shows "fle (fl64 a) (fl64 r)"
proof (cases "fl64 r")
  case (Fin y)
  with assms have "a \<le> y" by simp
  then have "fle (fl64 a) (fl64 y)" by (rule fl64_mono)
  moreover have "fl64 y = Fin y" using Fin by (rule fl64_idem)
  ultimately show ?thesis using Fin by simp
next
  case PInf
  then show ?thesis by (simp add: fle_PInf)
next
  case NInf
  with assms show ?thesis by simp
next
  case NaN
  then show ?thesis by simp
qed

lemma fle_fl64_left:
  assumes "fle (fl64 r) (Fin b)"
  shows "fle (fl64 r) (fl64 b)"
proof (cases "fl64 r")
  case (Fin y)
  with assms have "y \<le> b" by simp
  then have "fle (fl64 y) (fl64 b)" by (rule fl64_mono)
  moreover have "fl64 y = Fin y" using Fin by (rule fl64_idem)
  ultimately show ?thesis using Fin by simp
next
  case PInf
  with assms show ?thesis by simp
next
  case NInf
  then show ?thesis by (simp add: fle_NInf)
next
  case NaN
  then show ?thesis by simp
qed

lemma to_float_int: "to_float (PyInt n) = Inr x \<Longrightarrow> x = fl64 (of_int n)"
  by (simp split: float64.splits)

lemma to_float_mono:
  assumes "num_le d1 d2" and "to_float d1 = Inr x1" and "to_float d2 = Inr x2"
  shows "fle x1 x2"
proof (cases d1)
  case i1: (PyInt n1)
  then have x1: "x1 = fl64 (of_int n1)" using assms(2) by (simp add: to_float_int)
  show ?thesis
  proof (cases d2)
    case (PyInt n2)
    then have x2: "x2 = fl64 (of_int n2)" using assms(3) by (simp add: to_float_int)
    from assms(1) i1 PyInt have "(of_int n1 :: rat) \<le> of_int n2" by (simp add: num_le_def)
    then show ?thesis unfolding x1 x2 by (rule fl64_mono)
  next
    case (PyFloat y)
    show ?thesis
    proof (cases y)
      case (Fin r)
      with PyFloat assms(3) have x2: "x2 = fl64 r" by simp
      from assms(1) i1 PyFloat Fin have "fle (Fin (of_int n1)) (fl64 r)" by (simp add: num_le_def)
      then show ?thesis unfolding x1 x2 by (rule fle_fl64_right)
    next
      case PInf
      with PyFloat assms(3) have "x2 = PInf" by simp
      then show ?thesis unfolding x1 by (simp add: fle_PInf)
    next
      case NInf
      with assms(1) i1 PyFloat show ?thesis by (simp add: num_le_def)
    next
      case NaN
      with assms(1) i1 PyFloat show ?thesis by (simp add: num_le_def)
    qed
  qed
next
  case f1: (PyFloat y1)
  show ?thesis
  proof (cases d2)
    case (PyInt n2)
    then have x2: "x2 = fl64 (of_int n2)" using assms(3) by (simp add: to_float_int)
    show ?thesis
    proof (cases y1)
      case (Fin r)
      with f1 assms(2) have x1: "x1 = fl64 r" by simp
      from assms(1) f1 PyInt Fin have "fle (fl64 r) (Fin (of_int n2))" by (simp add: num_le_def)
      then show ?thesis unfolding x1 x2 by (rule fle_fl64_left)
    next
      case PInf
      with assms(1) f1 PyInt show ?thesis by (simp add: num_le_def)
    next
      case NInf
      with f1 assms(2) have "x1 = NInf" by simp
      then show ?thesis unfolding x2 by (simp add: fle_NInf)
    next
      case NaN
      with assms(1) f1 PyInt show ?thesis by (simp add: num_le_def)
    qed
  next
    case (PyFloat y2)
    have "x1 = num_val d1" using f1 assms(2) by (cases y1) simp_all
    moreover have "x2 = num_val d2" using PyFloat assms(3) by (cases y2) simp_all
    ultimately show ?thesis using assms(1) by (simp add: num_le_def)
  qed
qed

subsection \<open>The factors\<close>

lemma base_lookup_cases:
  "(case map_of base_prices k of None \<Rightarrow> 500 | Some p \<Rightarrow> p) \<in> {1500, 300, 800, 1200, 400, 500}"
  by (simp add: base_prices_def)

lemma fl64_base:
  assumes "b \<in> {1500, 300, 800, 1200, 400, 500 :: int}"
  shows "fl64 (of_int b) = Fin (of_int b)"
  using assms by (auto simp: fl64_mid fl_vals)

lemma location_loop_ge1:
  assumes "\<forall>(c, m) \<in> set tbl. 1 \<le> m"
  shows "1 \<le> location_loop tbl location"
  using assms
proof (induction tbl)
  case Nil
  show ?case by (simp add: fl_vals)
next
  case (Cons p tbl)
  obtain c m where p: "p = (c, m)" by (cases p)
  with Cons show ?case by simp
qed

lemma location_multipliers_ge1: "\<forall>(c, m) \<in> set location_multipliers. 1 \<le> m"
  by (simp add: location_multipliers_def fl_vals)

lemma dadd_ge1: "1 \<le> a \<Longrightarrow> 0 \<le> b \<Longrightarrow> 1 \<le> dadd a b"
proof -
  assume "1 \<le> a" "0 \<le> b"
  then have "fl 1 \<le> fl (a + b)" by (intro fl_mono) simp
  then show ?thesis by (simp add: dadd_def fl_vals)
qed

lemma demand_ge1: "1 \<le> calculate_demand_multiplier date location"
  by (simp add: calculate_demand_multiplier_def fl_vals split: sum.split)

lemma date_multiplier_ge1:
  "1 \<le> (if c2 then dadd (if c1 then dadd (fl 1) (fl (2 / 10)) else fl 1) (fl (15 / 100))
         else (if c1 then dadd (fl 1) (fl (2 / 10)) else fl 1))"
proof -
  have one: "1 \<le> fl 1" by (simp add: fl_vals)
  have p2: "0 \<le> fl (2 / 10)" by (rule fl_nonneg) simp
  have p15: "0 \<le> fl (15 / 100)" by (rule fl_nonneg) simp
  have "1 \<le> dadd (fl 1) (fl (2 / 10))" using one p2 by (rule dadd_ge1)
  then have a: "1 \<le> (if c1 then dadd (fl 1) (fl (2 / 10)) else fl 1)"
    using one by (cases c1) simp_all
  then have "1 \<le> dadd (if c1 then dadd (fl 1) (fl (2 / 10)) else fl 1) (fl (15 / 100))"
    using p15 by (rule dadd_ge1)
  then show ?thesis using a by (cases c2) simp_all
qed

lemma fle_Fin_0: "fle (Fin p) x \<Longrightarrow> 0 \<le> p \<Longrightarrow> fle (Fin 0) x"
  by (cases x) simp_all

lemma fl64_1: "fl64 1 = Fin 1"
  by (simp add: fl64_mid fl_vals)

lemma fl64_half: "fl64 (1 / 2) = Fin (1 / 2)"
  by (simp add: fl64_mid fl_vals)

lemma rating_ge_half: "fle (Fin (1 / 2)) (py_max (Fin (fl (8 / 10))) x)"
proof -
  have "fle (Fin (1 / 2)) (Fin (fl (8 / 10)))" by (simp add: fl_vals)
  moreover have "fle (Fin (fl (8 / 10))) (py_max (Fin (fl (8 / 10))) x)"
    by (rule py_max_ge) simp
  ultimately show ?thesis by (rule fle_trans)
qed

lemma duration_ge_1: "fle (Fin 1) (py_max (Fin (fl 1)) x)"
  using py_max_ge[of "Fin (fl 1)" x] by (simp add: fl_vals)

text \<open>The quote for a date that parses and numbers that convert.\<close>

lemma quote_regular:
  assumes "strptime date = Inr dt" and "to_float duration = Inr d"
    and "to_float rating = Inr r"
  shows "calculate_dynamic_price event_type location date duration rating =
     \<lparr>base_price = of_int (case map_of base_prices (lower event_type) of None \<Rightarrow> 500 | Some p \<Rightarrow> p),
      final_price = fround2 (fmul (fmul (fmul (fmul (fmul
         (Fin (of_int (case map_of base_prices (lower event_type) of None \<Rightarrow> 500 | Some p \<Rightarrow> p)))
         (Fin (location_loop location_multipliers location)))
         (Fin (if month dt \<in> set [12, 5, 6]
               then dadd (if weekday dt \<ge> 5 then dadd (fl 1) (fl (2 / 10)) else fl 1) (fl (15 / 100))
               else (if weekday dt \<ge> 5 then dadd (fl 1) (fl (2 / 10)) else fl 1))))
         (py_max (Fin (fl 1)) (fdiv d (fl 2))))
         (py_max (Fin (fl (8 / 10))) (fdiv r (fl 5))))
         (Fin (calculate_demand_multiplier date location))),
      factors =
        [(''location_multiplier'', Fin (location_loop location_multipliers location)),
         (''date_multiplier'',
            Fin (if month dt \<in> set [12, 5, 6]
               then dadd (if weekday dt \<ge> 5 then dadd (fl 1) (fl (2 / 10)) else fl 1) (fl (15 / 100))
               else (if weekday dt \<ge> 5 then dadd (fl 1) (fl (2 / 10)) else fl 1))),
         (''duration_multiplier'', py_max (Fin (fl 1)) (fdiv d (fl 2))),
         (''rating_multiplier'', py_max (Fin (fl (8 / 10))) (fdiv r (fl 5))),
         (''demand_multiplier'', Fin (calculate_demand_multiplier date location))]\<rparr>"
proof -
  have b: "fl64 (of_int (case map_of base_prices (lower event_type) of None \<Rightarrow> 500 | Some p \<Rightarrow> p))
           = Fin (of_int (case map_of base_prices (lower event_type) of None \<Rightarrow> 500 | Some p \<Rightarrow> p))"
    by (rule fl64_base) (rule base_lookup_cases)
  show ?thesis
    unfolding calculate_dynamic_price_def Let_def b using assms by simp
qed

subsection \<open>The integers that convert to a float\<close>

lemma fl_max_double:
  assumes "2 ^ 1024 - 2 ^ 971 \<le> \<bar>x\<bar>" and "\<bar>x\<bar> < 2 ^ 1024 - 2 ^ 970"
  shows "\<bar>fl x\<bar> = 2 ^ 1024 - 2 ^ 971"
proof -
  have pos: "fl y = 2 ^ 1024 - 2 ^ 971"
    if "2 ^ 1024 - 2 ^ 971 \<le> y" and "y < 2 ^ 1024 - 2 ^ 970" for y :: rat
  proof (rule fl_eqI[where e = 1023 and n = "2 ^ 53 - 1"])
    have y0: "0 < y" using that(1) by simp
    show "2 powi 1023 \<le> \<bar>y\<bar>" using that(1) by simp
    show "\<bar>y\<bar> < 2 powi (1023 + 1)" using that by simp
    have "y / 2 ^ 971 < (2 ^ 1024 - 2 ^ 970) / 2 ^ 971"
      using that(2) by (simp add: divide_strict_right_mono)
    moreover have "(2 ^ 1024 - 2 ^ 971) / 2 ^ 971 \<le> y / 2 ^ 971"
      using that(1) by (simp add: divide_right_mono)
    ultimately show "\<bar>y / 2 powi (1023 - 52) - of_int (2 ^ 53 - 1)\<bar> < 1 / 2"
      by simp
    show "(2::rat) ^ 1024 - 2 ^ 971 = of_int (2 ^ 53 - 1) * 2 powi (1023 - 52)"
      by simp
  qed
  show ?thesis
  proof (cases "0 \<le> x")
    case True
    with assms have "fl x = 2 ^ 1024 - 2 ^ 971" by (intro pos) simp_all
    then show ?thesis by simp
  next
    case False
    with assms have "fl (- x) = 2 ^ 1024 - 2 ^ 971" by (intro pos) simp_all
    then show ?thesis by (simp add: fl_minus)
  qed
qed

lemma min_normal_le_1: "min_normal \<le> 1"
proof -
  have "(2::rat) powi (- 1022) \<le> 2 powi 0" by (rule power_int_increasing) simp_all
  then show ?thesis by (simp add: min_normal_def)
qed

lemma fl64_max_double: "fl64 (2 ^ 1024 - 2 ^ 971) = Fin (2 ^ 1024 - 2 ^ 971)"
proof -
  have f: "\<bar>fl (2 ^ 1024 - 2 ^ 971)\<bar> = 2 ^ 1024 - 2 ^ 971"
    by (rule fl_max_double) simp_all
  have p: "fl (2 ^ 1024 - 2 ^ 971) = 2 ^ 1024 - 2 ^ 971"
    using f fl_nonneg[of "2 ^ 1024 - 2 ^ 971"] by simp
  have "fl64 (2 ^ 1024 - 2 ^ 971) = Fin (fl (2 ^ 1024 - 2 ^ 971))"
  proof (rule fl64_normal)
    have "(1::rat) \<le> \<bar>2 ^ 1024 - 2 ^ 971\<bar>" by simp
    with min_normal_le_1 show "min_normal \<le> \<bar>2 ^ 1024 - 2 ^ 971\<bar>" by (rule order_trans)
    show "\<bar>fl (2 ^ 1024 - 2 ^ 971)\<bar> < 2 ^ 1024" unfolding f by simp
  qed
  then show ?thesis by (simp only: p)
qed

lemma fl64_min_double: "fl64 (- (2 ^ 1024 - 2 ^ 971)) = Fin (- (2 ^ 1024 - 2 ^ 971))"
proof -
  have f: "\<bar>fl (- (2 ^ 1024 - 2 ^ 971))\<bar> = 2 ^ 1024 - 2 ^ 971"
    by (rule fl_max_double) simp_all
  have "fl (2 ^ 1024 - 2 ^ 971) = 2 ^ 1024 - 2 ^ 971"
    using fl_max_double[of "2 ^ 1024 - 2 ^ 971"] fl_nonneg[of "2 ^ 1024 - 2 ^ 971"] by simp
  then have p: "fl (- (2 ^ 1024 - 2 ^ 971)) = - (2 ^ 1024 - 2 ^ 971)"
    by (simp only: fl_minus)
  have "fl64 (- (2 ^ 1024 - 2 ^ 971)) = Fin (fl (- (2 ^ 1024 - 2 ^ 971)))"
  proof (rule fl64_normal)
    have "(1::rat) \<le> \<bar>- (2 ^ 1024 - 2 ^ 971)\<bar>" by simp
    with min_normal_le_1 show "min_normal \<le> \<bar>- (2 ^ 1024 - 2 ^ 971)\<bar>" by (rule order_trans)
    show "\<bar>fl (- (2 ^ 1024 - 2 ^ 971))\<bar> < 2 ^ 1024" unfolding f by simp
  qed
  then show ?thesis by (simp only: p)
qed

lemma fl_threshold: "fl (2 ^ 1024 - 2 ^ 970) = 2 ^ 1024"
  by (rule fl_tieI[where e = 1023 and f = "2 ^ 53 - 1"]) simp_all

lemma fl64_threshold: "fl64 (2 ^ 1024 - 2 ^ 970) = PInf"
proof -
  have "(1::rat) \<le> \<bar>2 ^ 1024 - 2 ^ 970\<bar>" by simp
  with min_normal_le_1 have "min_normal \<le> \<bar>(2::rat) ^ 1024 - 2 ^ 970\<bar>" by (rule order_trans)
  then have "rnd (2 ^ 1024 - 2 ^ 970) = 2 ^ 1024" by (simp only: rnd_normal fl_threshold)
  then show ?thesis by (simp add: fl64_def)
qed

lemma fl64_neg_threshold: "fl64 (- (2 ^ 1024 - 2 ^ 970)) = NInf"
proof -
  have "(1::rat) \<le> \<bar>- (2 ^ 1024 - 2 ^ 970)\<bar>" by simp
  with min_normal_le_1 have "min_normal \<le> \<bar>- ((2::rat) ^ 1024 - 2 ^ 970)\<bar>" by (rule order_trans)
  then have "rnd (- (2 ^ 1024 - 2 ^ 970)) = - (2 ^ 1024)"
    by (simp only: rnd_normal fl_minus fl_threshold)
  then show ?thesis by (simp add: fl64_def)
qed

text \<open>A rational number rounds to a finite float exactly when its magnitude is below
  \<open>2 ^ 1024 - 2 ^ 970\<close>, half a step above the largest float.\<close>

lemma fl64_finite_iff: "(\<exists>y. fl64 x = Fin y) \<longleftrightarrow> \<bar>x\<bar> < 2 ^ 1024 - 2 ^ 970"
proof
  assume "\<exists>y. fl64 x = Fin y"
  then obtain y where y: "fl64 x = Fin y" ..
  show "\<bar>x\<bar> < 2 ^ 1024 - 2 ^ 970"
  proof (rule ccontr)
    assume "\<not> \<bar>x\<bar> < 2 ^ 1024 - 2 ^ 970"
    then consider "2 ^ 1024 - 2 ^ 970 \<le> x" | "x \<le> - (2 ^ 1024 - 2 ^ 970)" by linarith
    then show False
    proof cases
      case 1
      then have "fle (fl64 (2 ^ 1024 - 2 ^ 970)) (fl64 x)" by (rule fl64_mono)
      then have "fle PInf (Fin y)" unfolding fl64_threshold y .
      then show False by simp
    next
      case 2
      then have "fle (fl64 x) (fl64 (- (2 ^ 1024 - 2 ^ 970)))" by (rule fl64_mono)
      then have "fle (Fin y) NInf" unfolding fl64_neg_threshold y .
      then show False by simp
    qed
  qed
next
  assume a: "\<bar>x\<bar> < 2 ^ 1024 - 2 ^ 970"
  show "\<exists>y. fl64 x = Fin y"
  proof (cases "2 ^ 1024 - 2 ^ 971 \<le> \<bar>x\<bar>")
    case True
    then have f: "\<bar>fl x\<bar> = 2 ^ 1024 - 2 ^ 971" using a by (rule fl_max_double)
    have "fl64 x = Fin (fl x)"
    proof (rule fl64_normal)
      have "(1::rat) \<le> 2 ^ 1024 - 2 ^ 971" by simp
      with min_normal_le_1 have "min_normal \<le> (2::rat) ^ 1024 - 2 ^ 971" by (rule order_trans)
      then show "min_normal \<le> \<bar>x\<bar>" using True by (rule order_trans)
      show "\<bar>fl x\<bar> < 2 ^ 1024" unfolding f by simp
    qed
    then show ?thesis by blast
  next
    case False
    then have "x \<le> 2 ^ 1024 - 2 ^ 971" and "- (2 ^ 1024 - 2 ^ 971) \<le> x" by linarith+
    then have "fle (fl64 x) (fl64 (2 ^ 1024 - 2 ^ 971))"
      and "fle (fl64 (- (2 ^ 1024 - 2 ^ 971))) (fl64 x)"
      by (auto intro: fl64_mono)
    then show ?thesis
      unfolding fl64_max_double fl64_min_double by (cases "fl64 x") simp_all
  qed
qed

lemma converts_int: "converts (PyInt n) \<longleftrightarrow> \<bar>n\<bar> < 2 ^ 1024 - 2 ^ 970"
proof -
  have "converts (PyInt n) \<longleftrightarrow> (\<exists>y. fl64 (of_int n) = Fin y)"
    by (cases "fl64 (of_int n :: rat)") (simp_all add: converts_def)
  also have "\<dots> \<longleftrightarrow> \<bar>of_int n :: rat\<bar> < 2 ^ 1024 - 2 ^ 970" by (rule fl64_finite_iff)
  also have "\<dots> \<longleftrightarrow> \<bar>n\<bar> < 2 ^ 1024 - 2 ^ 970"
  proof -
    have "(\<bar>of_int n :: rat\<bar> < of_int (2 ^ 1024 - 2 ^ 970)) = (\<bar>n\<bar> < 2 ^ 1024 - 2 ^ 970)"
      unfolding of_int_abs[symmetric] by (rule of_int_less_iff)
    then show ?thesis by simp
  qed
  finally show ?thesis .
qed

subsection \<open>The claims about the quote\<close>

text \<open>
  C5. The quote for a portrait in Chennai on 2024-03-04 (a Monday, weekday 0, in March),
  the duration the \<open>int\<close> 2, the rating the float 4.0: base price 300, location multiplier
  the float 1.2, date multiplier 1.0, duration multiplier 1.0, rating multiplier the float
  0.8, demand multiplier 1.0, and final price exactly 288.0, every product and the final
  rounding taken in float arithmetic.
\<close>

theorem quote_portrait_chennai:
  "calculate_dynamic_price ''portrait'' ''Chennai'' ''2024-03-04'' (PyInt 2) (PyFloat (Fin 4)) =
     \<lparr>base_price = 300, final_price = Fin 288,
      factors = [(''location_multiplier'', Fin (fl (12 / 10))), (''date_multiplier'', Fin 1),
                 (''duration_multiplier'', Fin 1), (''rating_multiplier'', Fin (fl (8 / 10))),
                 (''demand_multiplier'', Fin 1)]\<rparr>
   \<and> strptime ''2024-03-04'' = Inr \<lparr>year = 2024, month = 3, day = 4\<rparr>
   \<and> weekday \<lparr>year = 2024, month = 3, day = 4\<rparr> = 0"
  by (simp add: quote_eval)

text \<open>
  C6, as stated, fails: for a wedding, whose base price is 1500, a date that cannot be
  parsed gives the final price 500.
\<close>

theorem fallback_quote_counterexample:
  "final_price (calculate_dynamic_price ''wedding'' ''Mumbai'' ''next week''
      (PyInt 2) (PyFloat (Fin 4))) = Fin 500
   \<and> map_of base_prices (lower ''wedding'') = Some 1500
   \<and> strptime ''next week'' = Inl ValueError"
  by (simp add: calculate_dynamic_price_def except_quote_def base_prices_def str_eval
      date_eval Let_def)

text \<open>
  C6, amended. For every event type, location, duration and rating, if the date cannot
  be parsed the quote operation raises nothing: it returns the fixed quote with base
  price 500 and final price 500 (the default base price, whatever the event type) and an
  empty factor breakdown.
\<close>

theorem fallback_quote:
  assumes "strptime date = Inl e"
  shows "calculate_dynamic_price event_type location date duration photographer_rating =
           \<lparr>base_price = 500, final_price = Fin 500, factors = []\<rparr>"
  using assms by (simp add: calculate_dynamic_price_def except_quote_def Let_def)

theorem fallback_quote_witness:
  "calculate_dynamic_price ''wedding'' ''Mumbai'' ''next week'' (PyInt 2) (PyFloat (Fin 4)) =
           \<lparr>base_price = 500, final_price = Fin 500, factors = []\<rparr>"
proof -
  have h: "strptime ''next week'' = Inl ValueError"
    by (simp add: str_eval date_eval)
  show ?thesis using fallback_quote[OF h] .
qed

text \<open>
  C4, as stated, fails: for a portrait in Chennai on 2024-03-04, a date that parses, the
  duration \<open>10 ** 309\<close> (an \<open>int\<close> too large for a float) makes \<open>duration / 2.0\<close> raise
  \<open>OverflowError\<close>; the quote is the one of the \<open>except\<close> branch, with no factor in its
  breakdown and the final price 500, although the base price of a portrait is 300.
\<close>

theorem quote_of_huge_duration:
  "calculate_dynamic_price ''portrait'' ''Chennai'' ''2024-03-04''
      (PyInt (10 ^ 309)) (PyFloat (Fin 4)) =
     \<lparr>base_price = 500, final_price = Fin 500, factors = []\<rparr>
   \<and> strptime ''2024-03-04'' = Inr \<lparr>year = 2024, month = 3, day = 4\<rparr>
   \<and> to_float (PyInt (10 ^ 309)) = Inl OverflowError
   \<and> map_of base_prices (lower ''portrait'') = Some 300"
  by (simp add: quote_eval)

text \<open>
  C4, amended. For every event type and location, every date that parses, and every
  duration and rating that convert to a float (every float; an \<open>int\<close> exactly when its
  magnitude is below \<open>2 ^ 1024 - 2 ^ 970\<close>): the quote carries the five named multipliers, each of them at
  least 0, its base price is the price of the event type (500 for an unknown one), and
  its final price is the base price multiplied by the location, date, duration, rating
  and demand multipliers, in this order and in float arithmetic, rounded to two decimal
  places.
\<close>

theorem quote_is_product_of_factors:
  assumes "strptime date = Inr dt" and "converts duration" and "converts rating"
  shows "\<exists>l dm du r de.
           factors (calculate_dynamic_price event_type location date duration rating) =
             [(''location_multiplier'', l), (''date_multiplier'', dm),
              (''duration_multiplier'', du), (''rating_multiplier'', r),
              (''demand_multiplier'', de)]
           \<and> fle (Fin 0) l \<and> fle (Fin 0) dm \<and> fle (Fin 0) du \<and> fle (Fin 0) r
           \<and> fle (Fin 0) de
           \<and> base_price (calculate_dynamic_price event_type location date duration rating) =
               of_int (case map_of base_prices (lower event_type) of None \<Rightarrow> 500 | Some p \<Rightarrow> p)
           \<and> final_price (calculate_dynamic_price event_type location date duration rating) =
               fround2 (fmul (fmul (fmul (fmul (fmul
                 (Fin (base_price (calculate_dynamic_price event_type location date duration rating)))
                 l) dm) du) r) de)"
proof -
  from assms(2) obtain d where d: "to_float duration = Inr d" by (auto simp: converts_iff)
  from assms(3) obtain ra where ra: "to_float rating = Inr ra" by (auto simp: converts_iff)
  define l where "l = location_loop location_multipliers location"
  define dm where "dm = (if month dt \<in> set [12, 5, 6]
               then dadd (if weekday dt \<ge> 5 then dadd (fl 1) (fl (2 / 10)) else fl 1) (fl (15 / 100))
               else (if weekday dt \<ge> 5 then dadd (fl 1) (fl (2 / 10)) else fl 1))"
  define du where "du = py_max (Fin (fl 1)) (fdiv d (fl 2))"
  define r where "r = py_max (Fin (fl (8 / 10))) (fdiv ra (fl 5))"
  define de where "de = calculate_demand_multiplier date location"
  note q = quote_regular[OF assms(1) d ra, of event_type location,
      folded l_def dm_def du_def r_def de_def]
  have l0: "fle (Fin 0) (Fin l)"
    using location_loop_ge1[OF location_multipliers_ge1, of location] by (simp add: l_def)
  have dm0: "fle (Fin 0) (Fin dm)"
    using date_multiplier_ge1[of "month dt \<in> set [12, 5, 6]" "weekday dt \<ge> 5"]
    unfolding dm_def[symmetric] by simp
  have du0: "fle (Fin 0) du"
    unfolding du_def by (rule fle_Fin_0[OF duration_ge_1]) simp
  have r0: "fle (Fin 0) r"
    unfolding r_def by (rule fle_Fin_0[OF rating_ge_half]) simp
  have de0: "fle (Fin 0) (Fin de)"
    using demand_ge1[of date location] by (simp add: de_def)
  show ?thesis
    unfolding q using l0 dm0 du0 r0 de0 by simp
qed

theorem quote_is_product_of_factors_witness:
  "\<exists>l dm du r de.
     factors (calculate_dynamic_price ''portrait'' ''Chennai'' ''2024-03-04''
                (PyInt 2) (PyFloat (Fin 4))) =
       [(''location_multiplier'', l), (''date_multiplier'', dm),
        (''duration_multiplier'', du), (''rating_multiplier'', r),
        (''demand_multiplier'', de)]
     \<and> fle (Fin 0) l \<and> fle (Fin 0) dm \<and> fle (Fin 0) du \<and> fle (Fin 0) r \<and> fle (Fin 0) de
     \<and> base_price (calculate_dynamic_price ''portrait'' ''Chennai'' ''2024-03-04''
                (PyInt 2) (PyFloat (Fin 4))) = 300
     \<and> final_price (calculate_dynamic_price ''portrait'' ''Chennai'' ''2024-03-04''
                (PyInt 2) (PyFloat (Fin 4))) =
         fround2 (fmul (fmul (fmul (fmul (fmul (Fin 300) l) dm) du) r) de)"
proof -
  have b: "(case map_of base_prices (lower ''portrait'') of None \<Rightarrow> 500 | Some p \<Rightarrow> p) = 300"
    by (simp add: base_prices_def str_eval)
  have c1: "converts (PyInt 2)" by (simp add: converts_def fl64_mid fl_vals)
  have c2: "converts (PyFloat (Fin 4))" by (simp add: converts_def)
  from quote_is_product_of_factors[OF strptime_2024_03_04 c1 c2, of "''portrait''" "''Chennai''"]
  obtain l dm du r de where
    f: "factors (calculate_dynamic_price ''portrait'' ''Chennai'' ''2024-03-04''
                (PyInt 2) (PyFloat (Fin 4))) =
          [(''location_multiplier'', l), (''date_multiplier'', dm),
           (''duration_multiplier'', du), (''rating_multiplier'', r),
           (''demand_multiplier'', de)]"
    and n: "fle (Fin 0) l" "fle (Fin 0) dm" "fle (Fin 0) du" "fle (Fin 0) r" "fle (Fin 0) de"
    and bp: "base_price (calculate_dynamic_price ''portrait'' ''Chennai'' ''2024-03-04''
                (PyInt 2) (PyFloat (Fin 4))) =
          of_int (case map_of base_prices (lower ''portrait'') of None \<Rightarrow> 500 | Some p \<Rightarrow> p)"
    and fp: "final_price (calculate_dynamic_price ''portrait'' ''Chennai'' ''2024-03-04''
                (PyInt 2) (PyFloat (Fin 4))) =
          fround2 (fmul (fmul (fmul (fmul (fmul
            (Fin (base_price (calculate_dynamic_price ''portrait'' ''Chennai'' ''2024-03-04''
                (PyInt 2) (PyFloat (Fin 4)))))
            l) dm) du) r) de)"
    by blast
  have bp': "base_price (calculate_dynamic_price ''portrait'' ''Chennai'' ''2024-03-04''
                (PyInt 2) (PyFloat (Fin 4))) = 300"
    using bp by (simp add: b)
  show ?thesis using f n bp' fp[unfolded bp'] by blast
qed

text \<open>
  C9, as stated, fails: for a wedding in Goa on 2024-03-04 with the rating 4.0, the
  duration 2 gives the final price 1200.0 and the larger duration \<open>10 ** 309\<close>, an
  \<open>int\<close> too large for a float, gives the final price 500 of the \<open>except\<close> branch.
\<close>

theorem quote_falls_for_huge_duration:
  "final_price (calculate_dynamic_price ''wedding'' ''Goa'' ''2024-03-04''
      (PyInt 2) (PyFloat (Fin 4))) = Fin 1200
   \<and> final_price (calculate_dynamic_price ''wedding'' ''Goa'' ''2024-03-04''
      (PyInt (10 ^ 309)) (PyFloat (Fin 4))) = Fin 500
   \<and> num_le (PyInt 2) (PyInt (10 ^ 309))
   \<and> \<not> fle (Fin 1200) (Fin 500)
   \<and> strptime ''2024-03-04'' = Inr \<lparr>year = 2024, month = 3, day = 4\<rparr>"
  by (simp add: quote_eval num_le_def)

text \<open>
  C9, amended. For every event type, location, date and rating, and two durations
  \<open>d1 \<le> d2\<close> that both convert to a float (every float; an \<open>int\<close> exactly when
  its magnitude is below \<open>2 ^ 1024 - 2 ^ 970\<close>), the final price for \<open>d1\<close> is at most the final price for \<open>d2\<close>:
  the conversion to a float and every float operation are monotone, the duration
  multiplier \<open>max(1.0, d / 2.0)\<close> is monotone in \<open>d\<close>, and the other factors are
  positive and do not depend on the duration. (For a date that does not parse, or a
  rating that does not convert, both prices are 500.)
\<close>

theorem quote_monotone_in_duration:
  assumes "num_le d1 d2" and "converts d1" and "converts d2"
  shows "fle (final_price (calculate_dynamic_price event_type location date d1 rating))
             (final_price (calculate_dynamic_price event_type location date d2 rating))"
proof (cases "strptime date")
  case (Inl e)
  then show ?thesis by (simp add: calculate_dynamic_price_def except_quote_def Let_def)
next
  case (Inr dt)
  from assms(2) obtain x1 where x1: "to_float d1 = Inr x1" by (auto simp: converts_iff)
  from assms(3) obtain x2 where x2: "to_float d2 = Inr x2" by (auto simp: converts_iff)
  show ?thesis
  proof (cases "to_float rating")
    case (Inl e)
    then show ?thesis
      using Inr x1 x2 by (simp add: calculate_dynamic_price_def except_quote_def Let_def)
  next
    case ra: (Inr ra)
    define b where "b = (of_int (case map_of base_prices (lower event_type) of
                            None \<Rightarrow> 500 | Some p \<Rightarrow> p) :: rat)"
    define l where "l = location_loop location_multipliers location"
    define dm where "dm = (if month dt \<in> set [12, 5, 6]
               then dadd (if weekday dt \<ge> 5 then dadd (fl 1) (fl (2 / 10)) else fl 1) (fl (15 / 100))
               else (if weekday dt \<ge> 5 then dadd (fl 1) (fl (2 / 10)) else fl 1))"
    define du where "du = (\<lambda>x. py_max (Fin (fl 1)) (fdiv x (fl 2)))"
    define r where "r = py_max (Fin (fl (8 / 10))) (fdiv ra (fl 5))"
    define de where "de = calculate_demand_multiplier date location"
    define X where "X = fmul (fmul (Fin b) (Fin l)) (Fin dm)"
    have q1: "final_price (calculate_dynamic_price event_type location date d1 rating) =
               fround2 (fmul (fmul (fmul X (du x1)) r) (Fin de))"
      unfolding quote_regular[OF Inr x1 ra] by (simp add: X_def b_def l_def dm_def du_def r_def de_def)
    have q2: "final_price (calculate_dynamic_price event_type location date d2 rating) =
               fround2 (fmul (fmul (fmul X (du x2)) r) (Fin de))"
      unfolding quote_regular[OF Inr x2 ra] by (simp add: X_def b_def l_def dm_def du_def r_def de_def)
    have "(case map_of base_prices (lower event_type) of None \<Rightarrow> 500 | Some p \<Rightarrow> p)
            \<in> {1500, 300, 800, 1200, 400, 500}"
      by (rule base_lookup_cases)
    then have b1: "1 \<le> b" unfolding b_def by auto
    have l1: "1 \<le> l"
      unfolding l_def by (rule location_loop_ge1) (rule location_multipliers_ge1)
    have dm1: "1 \<le> dm" unfolding dm_def by (rule date_multiplier_ge1)
    have de1: "1 \<le> de" unfolding de_def by (rule demand_ge1)
    have "fle (fl64 (1 * 1)) (fmul (Fin b) (Fin l))"
      by (rule fmul_lower) (use b1 l1 in simp_all)
    then have "fle (Fin 1) (fmul (Fin b) (Fin l))" by (simp add: fl64_1)
    then have "fle (fl64 (1 * 1)) X"
      unfolding X_def by (rule fmul_lower) (use dm1 in simp_all)
    then have X1: "fle (Fin 1) X" by (simp add: fl64_1)
    have x: "fle x1 x2" using assms(1) x1 x2 by (rule to_float_mono)
    have f2: "(0::rat) < fl 2" by (simp add: fl_vals)
    have "fle (fdiv x1 (fl 2)) (fdiv x2 (fl 2))" using x f2 by (rule fdiv_mono)
    then have du: "fle (du x1) (du x2)" unfolding du_def by (rule py_max_mono) simp
    have du1: "fle (Fin 1) (du y)" for y unfolding du_def by (rule duration_ge_1)
    have r1: "fle (Fin (1 / 2)) r" unfolding r_def by (rule rating_ge_half)
    have A: "fle (fmul X (du x1)) (fmul X (du x2))"
      using du X1 du1 by (rule fmul_mono_right) simp_all
    have "fle (fl64 (1 * 1)) (fmul X (du x1))"
      using X1 du1 by (rule fmul_lower) simp_all
    then have A1: "fle (Fin 1) (fmul X (du x1))" by (simp add: fl64_1)
    have B: "fle (fmul (fmul X (du x1)) r) (fmul (fmul X (du x2)) r)"
      using A A1 r1 by (rule fmul_mono_left) simp_all
    have "fle (fl64 (1 * (1 / 2))) (fmul (fmul X (du x1)) r)"
      using A1 r1 by (rule fmul_lower) simp_all
    then have B1: "fle (Fin (1 / 2)) (fmul (fmul X (du x1)) r)" by (simp add: fl64_half)
    have de': "fle (Fin 1) (Fin de)" using de1 by simp
    have "fle (fmul (fmul (fmul X (du x1)) r) (Fin de)) (fmul (fmul (fmul X (du x2)) r) (Fin de))"
      using B B1 de' by (rule fmul_mono_left) simp_all
    then show ?thesis unfolding q1 q2 by (rule fround2_mono)
  qed
qed

theorem quote_monotone_in_duration_witness:
  "num_le (PyInt 2) (PyFloat (Fin 4)) \<and> converts (PyInt 2) \<and> converts (PyFloat (Fin 4))
   \<and> fle (final_price (calculate_dynamic_price ''portrait'' ''Chennai'' ''2024-03-04''
              (PyInt 2) (PyFloat (Fin 4))))
          (final_price (calculate_dynamic_price ''portrait'' ''Chennai'' ''2024-03-04''
              (PyFloat (Fin 4)) (PyFloat (Fin 4))))"
proof -
  have h: "num_le (PyInt 2) (PyFloat (Fin 4))" by (simp add: num_le_def fl64_mid fl_vals)
  have c1: "converts (PyInt 2)" by (simp add: converts_def fl64_mid fl_vals)
  have c2: "converts (PyFloat (Fin 4))" by (simp add: converts_def)
  show ?thesis
    by (intro conjI h c1 c2 quote_monotone_in_duration[OF h c1 c2])
qed

end
